theory Spec2Isabelle
  imports Main "HOL-Library.Sublist" "HOL-Library.Word" "HOL-Library.Char_ord"
    "HOL-Library.List_Lexorder"
begin

section \<open>flower-cache: a content-addressed blob caching proxy\<close>

text \<open>
  A shallow embedding of the TypeScript sources of flower-cache: the response helpers
  (\<^verbatim>\<open>src/response.ts\<close>), the blob request handler (\<^verbatim>\<open>src/handler.ts\<close>), the upstream
  fetcher (\<^verbatim>\<open>src/proxy.ts\<close>), the hashing and caching streams (\<^verbatim>\<open>src/hash-stream.ts\<close>,
  \<^verbatim>\<open>cache-stream.ts\<close>, \<^verbatim>\<open>stream-utils.ts\<close>), the cache store with its metadata table and LRU
  pruning (\<^verbatim>\<open>src/cache.ts\<close>) and the in-flight request queue (\<^verbatim>\<open>src/request-queue.ts\<close>).

  Conventions. A JavaScript string is a \<^typ>\<open>string\<close>; a \<^verbatim>\<open>Uint8Array\<close> is a list of
  8-bit words; a value that may be \<^verbatim>\<open>null\<close> or \<^verbatim>\<open>undefined\<close> is an option. The results
  of awaited effects (the network, the file system, the clock) are explicit arguments,
  and functions that mutate the cache directory or the metadata table take the state and
  return the new one. Numbers that the code only uses as integers are \<^typ>\<open>int\<close> or
  \<^typ>\<open>nat\<close>; the one floating-point product, in \<^verbatim>\<open>pruneCache\<close>, is computed as IEEE
  754 prescribes. Code that runs concurrently (the stream pipeline, the in-flight map) is
  a state machine over the events that can occur, and the statements about it hold for
  every sequence of events.
\<close>

subsection \<open>JavaScript strings\<close>

type_synonym bytes = "8 word list"

text \<open>Truthiness of a string that may be null: null and the empty string are falsy.\<close>

definition truthy :: "string option \<Rightarrow> bool" where
  "truthy v = (case v of None \<Rightarrow> False | Some s \<Rightarrow> s \<noteq> [])"

text \<open>\<^verbatim>\<open>s.startsWith(p)\<close> is \<^const>\<open>prefix\<close>; \<^verbatim>\<open>s.includes(t)\<close> scans every position of s.\<close>

fun str_includes :: "string \<Rightarrow> string \<Rightarrow> bool" where
  "str_includes [] t = (t = [])"
| "str_includes (c # cs) t = (prefix t (c # cs) \<or> str_includes cs t)"

text \<open>\<^verbatim>\<open>s.split(",")\<close>: the pieces between separators; the empty string gives one empty piece.\<close>

fun split :: "char \<Rightarrow> string \<Rightarrow> string list" where
  "split sep [] = [[]]"
| "split sep (c # cs) =
     (if c = sep then [] # split sep cs
      else (case split sep cs of [] \<Rightarrow> [[c]] | p # ps \<Rightarrow> (c # p) # ps))"

text \<open>
  \<^verbatim>\<open>s.trim()\<close> removes white space and line terminators at both ends; of the characters
  a header value can hold (code points below 256) these are TAB, LF, VT, FF, CR, SPACE and
  the no-break space.
\<close>

definition isWhiteSpace :: "char \<Rightarrow> bool" where
  "isWhiteSpace c = (c \<in> set [CHR 0x09, CHR 0x0A, CHR 0x0B, CHR 0x0C, CHR 0x0D, CHR 0x20, CHR 0xA0])"

definition trim :: "string \<Rightarrow> string" where
  "trim s = rev (dropWhile isWhiteSpace (rev (dropWhile isWhiteSpace s)))"

definition isDigit :: "char \<Rightarrow> bool" where
  "isDigit c = (c \<in> set ''0123456789'')"

definition digitValue :: "char \<Rightarrow> nat" where
  "digitValue c = of_char c - of_char CHR ''0''"

text \<open>\<^verbatim>\<open>parseInt(s, 10)\<close> on a string that the regular expression has matched against \<^verbatim>\<open>\d+\<close>.\<close>

definition parseInt :: "string \<Rightarrow> int" where
  "parseInt s = int (foldl (\<lambda>n c. 10 * n + digitValue c) 0 s)"

definition digitChar :: "nat \<Rightarrow> char" where
  "digitChar d = char_of (of_char CHR ''0'' + d)"

fun natToString :: "nat \<Rightarrow> string" where
  "natToString n = (if n < 10 then [digitChar n] else natToString (n div 10) @ [digitChar (n mod 10)])"

text \<open>\<^verbatim>\<open>n.toString()\<close> of an integer.\<close>

definition toString :: "int \<Rightarrow> string" where
  "toString i = (if i < 0 then CHR ''-'' # natToString (nat (- i)) else natToString (nat i))"

definition toLowerCaseChar :: "char \<Rightarrow> char" where
  "toLowerCaseChar c =
     (if of_char CHR ''A'' \<le> (of_char c :: nat) \<and> (of_char c :: nat) \<le> of_char CHR ''Z''
      then char_of (of_char c + (32 :: nat)) else c)"

text \<open>\<^verbatim>\<open>s.toLowerCase()\<close> on the ASCII strings the code applies it to (hexadecimal digests).\<close>

definition toLowerCase :: "string \<Rightarrow> string" where
  "toLowerCase s = map toLowerCaseChar s"

subsection \<open>Requests and responses\<close>

datatype body = Null | Text string | Blob bytes | Stream "bytes list"

record response =
  status :: nat
  headers :: "(string \<times> string) list"
  body :: body

record request =
  req_method :: string
  req_headers :: "string \<rightharpoonup> string"

record ParsedRequest =
  sha256 :: string
  extension :: "string option"
  authorPubkeys :: "string list"
  serverHints :: "string list"

text \<open>\<^verbatim>\<open>headers.set(name, value)\<close>: replace the value of a present name, append otherwise.\<close>

fun headers_set :: "(string \<times> string) list \<Rightarrow> string \<Rightarrow> string \<Rightarrow> (string \<times> string) list" where
  "headers_set [] k v = [(k, v)]"
| "headers_set ((k', v') # hs) k v =
     (if k' = k then (k, v) # hs else (k', v') # headers_set hs k v)"

definition headers_get :: "(string \<times> string) list \<Rightarrow> string \<Rightarrow> string option" where
  "headers_get hs k = map_of hs k"

subsection \<open>src/response.ts\<close>

text \<open>
  \<^verbatim>\<open>getContentType\<close>: the MIME table of the \<^verbatim>\<open>mime\<close> package is an argument
  (\<open>mime_getType\<close>); an unknown or missing extension gives the octet-stream type.
\<close>

definition getContentType :: "(string \<Rightarrow> string option) \<Rightarrow> string option \<Rightarrow> string" where
  "getContentType mime_getType ext =
     (case ext of
        None \<Rightarrow> ''application/octet-stream''
      | Some e \<Rightarrow>
          if e = [] then ''application/octet-stream''
          else if truthy (mime_getType e) then the (mime_getType e)
          else ''application/octet-stream'')"

definition generateETag :: "string \<Rightarrow> string" where
  "generateETag sha = CHR 0x22 # sha @ [CHR 0x22]"

text \<open>\<^verbatim>\<open>e.replace(/^W\//, "")\<close>.\<close>

definition stripWeak :: "string \<Rightarrow> string" where
  "stripWeak e = (if prefix ''W/'' e then drop 2 e else e)"

definition checkIfNoneMatch :: "request \<Rightarrow> string \<Rightarrow> bool" where
  "checkIfNoneMatch req etag =
     (case req_headers req ''If-None-Match'' of
        None \<Rightarrow> False
      | Some ifNoneMatch \<Rightarrow>
          if ifNoneMatch = [] then False
          else
            (let etags = map (\<lambda>e. stripWeak (trim e)) (split CHR '','' ifNoneMatch);
                 normalizedETag = stripWeak etag
             in list_ex (\<lambda>e. e = normalizedETag \<or> e = etag) etags))"

definition getCacheControlHeaders :: "(string \<times> string) list" where
  "getCacheControlHeaders = [(''Cache-Control'', ''public, max-age=31536000, immutable'')]"

definition addCorsHeaders :: "response \<Rightarrow> response" where
  "addCorsHeaders r = r\<lparr>headers := headers_set (headers r) ''Access-Control-Allow-Origin'' ''*''\<rparr>"

definition createNotModifiedResponse :: "string \<Rightarrow> response" where
  "createNotModifiedResponse etag =
     addCorsHeaders
       \<lparr>status = 304,
        headers = [(''ETag'', etag), (''Cache-Control'', ''public, max-age=31536000, immutable'')],
        body = Null\<rparr>"

definition createErrorResponse :: "nat \<Rightarrow> string \<Rightarrow> response" where
  "createErrorResponse st reason =
     addCorsHeaders \<lparr>status = st, headers = headers_set [] ''X-Reason'' reason, body = Text reason\<rparr>"

subsection \<open>src/handler.ts: serving a cached file\<close>

text \<open>
  \<^verbatim>\<open>rangeHeader.match(/bytes=(\d+)-(\d*)/)\<close>: the expression is not anchored, so the
  leftmost position where it matches is taken; both digit groups are greedy. The result
  is the pair of captured groups.
\<close>

definition rangeMatchHere :: "string \<Rightarrow> (string \<times> string) option" where
  "rangeMatchHere s =
     (if prefix ''bytes='' s then
        (let rest = drop 6 s;
             g1 = takeWhile isDigit rest;
             rest' = dropWhile isDigit rest
         in if g1 \<noteq> [] \<and> prefix ''-'' rest' then Some (g1, takeWhile isDigit (drop 1 rest'))
            else None)
      else None)"

fun rangeMatch :: "string \<Rightarrow> (string \<times> string) option" where
  "rangeMatch [] = None"
| "rangeMatch (c # cs) =
     (case rangeMatchHere (c # cs) of Some g \<Rightarrow> Some g | None \<Rightarrow> rangeMatch cs)"

text \<open>\<^verbatim>\<open>cachedFile.slice(start, end)\<close> for \<open>0 \<le> start \<le> end\<close>.\<close>

definition slice :: "bytes \<Rightarrow> int \<Rightarrow> int \<Rightarrow> bytes" where
  "slice bs start end = take (nat (end - start)) (drop (nat start) bs)"

text \<open>The response that streams the whole cached file (both full-file branches build it).\<close>

definition fullFileResponse :: "bytes \<Rightarrow> string \<Rightarrow> string \<Rightarrow> response" where
  "fullFileResponse cachedFile contentType etag =
     (let h0 = headers_set [] ''Content-Type'' contentType;
          h1 = headers_set h0 ''Content-Length'' (toString (int (length cachedFile)));
          h2 = headers_set h1 ''Accept-Ranges'' ''bytes'';
          h3 = headers_set h2 ''ETag'' etag;
          h4 = fold (\<lambda>(k, v) h. headers_set h k v) getCacheControlHeaders h3
      in \<lparr>status = 200, headers = h4, body = Blob cachedFile\<rparr>)"

text \<open>
  \<^verbatim>\<open>handleCachedFile\<close>. The cached file is given by its content; \<^verbatim>\<open>stats.size\<close> is its
  length.
\<close>

definition handleCachedFile ::
  "(string \<Rightarrow> string option) \<Rightarrow> request \<Rightarrow> bytes \<Rightarrow> string option \<Rightarrow> bool \<Rightarrow> string option \<Rightarrow> string \<Rightarrow> response" where
  "handleCachedFile mime_getType req cachedFile ext isHead rangeHeader etag =
     (if \<not> truthy rangeHeader \<and> checkIfNoneMatch req etag then createNotModifiedResponse etag
      else
        (let size = int (length cachedFile);
             contentType = getContentType mime_getType ext
         in if isHead then
              addCorsHeaders
                \<lparr>status = 200,
                 headers = [(''Content-Type'', contentType), (''Content-Length'', toString size),
                            (''Accept-Ranges'', ''bytes''), (''ETag'', etag)] @ getCacheControlHeaders,
                 body = Null\<rparr>
            else if truthy rangeHeader then
              (case rangeMatch (the rangeHeader) of
                 Some (g1, g2) \<Rightarrow>
                   (let start = parseInt g1;
                        end = (if g2 \<noteq> [] then parseInt g2 else size - 1)
                    in if start < 0 \<or> start \<ge> size \<or> end \<ge> size \<or> start > end
                       then createErrorResponse 416 ''Range not satisfiable''
                       else
                         (let contentLength = end - start + 1;
                              slicedBlob = slice cachedFile start (end + 1)
                          in addCorsHeaders
                               \<lparr>status = 206,
                                headers = [(''Content-Type'', contentType),
                                           (''Content-Length'', toString contentLength),
                                           (''Content-Range'',
                                             ''bytes '' @ toString start @ ''-'' @ toString end @ ''/'' @ toString size),
                                           (''Accept-Ranges'', ''bytes''), (''ETag'', etag)]
                                          @ getCacheControlHeaders,
                                body = Blob slicedBlob\<rparr>))
               | None \<Rightarrow> addCorsHeaders (fullFileResponse cachedFile contentType etag))
            else addCorsHeaders (fullFileResponse cachedFile contentType etag)))"

subsection \<open>Readable streams\<close>

text \<open>
  A \<^verbatim>\<open>ReadableStream\<close> is modelled by the chunks it delivers and its lock. \<^verbatim>\<open>tee()\<close>
  acquires a reader on the stream: it throws a \<^verbatim>\<open>TypeError\<close> when the stream is already
  locked, and otherwise locks the stream and returns two branches that deliver the same
  chunks.
\<close>

datatype js_error = TypeError string

record readable_stream =
  locked :: bool
  chunks :: "bytes list"

definition tee :: "readable_stream \<Rightarrow> js_error + (readable_stream \<times> readable_stream \<times> readable_stream)" where
  "tee s =
     (if locked s then Inl (TypeError ''ReadableStream is locked'')
      else Inr (s\<lparr>locked := True\<rparr>,
                \<lparr>locked = False, chunks = chunks s\<rparr>,
                \<lparr>locked = False, chunks = chunks s\<rparr>))"

subsection \<open>src/request-queue.ts: the result of a streaming fetch\<close>

text \<open>
  \<^verbatim>\<open>StreamResult\<close>. The promise \<^verbatim>\<open>hashValidation\<close> is represented by the value it resolves
  to; \<^verbatim>\<open>cacheWrite\<close> resolves to nothing and has no field.
\<close>

record StreamResult =
  stream :: "readable_stream option"
  contentType :: string
  contentLength :: "int option"
  hashValidation :: bool

subsection \<open>src/handler.ts: the blob request handler\<close>

text \<open>
  The loop of the range stream (\<^verbatim>\<open>pump\<close>) on the chunks read from the request branch:
  it skips \<open>start\<close> bytes, then sends at most \<open>rangeLength\<close> bytes and stops reading.
\<close>

fun rangePump :: "int \<Rightarrow> int \<Rightarrow> int \<Rightarrow> int \<Rightarrow> bytes list \<Rightarrow> bytes list" where
  "rangePump start rangeLength bytesSkipped bytesSent [] = []"
| "rangePump start rangeLength bytesSkipped bytesSent (val # rest) =
     (if bytesSkipped < start then
        (let skipAmount = min (start - bytesSkipped) (int (length val)) in
         if skipAmount < int (length val) then
           (let remaining = drop (nat skipAmount) val;
                toSend = min (int (length remaining)) (rangeLength - bytesSent)
            in if toSend > 0
               then take (nat toSend) remaining #
                    rangePump start rangeLength (bytesSkipped + skipAmount) (bytesSent + toSend) rest
               else rangePump start rangeLength (bytesSkipped + skipAmount) bytesSent rest)
         else rangePump start rangeLength (bytesSkipped + skipAmount) bytesSent rest)
      else
        (let remaining = rangeLength - bytesSent in
         if remaining \<le> 0 then []
         else
           (let toSend = min (int (length val)) remaining in
            if toSend < int (length val) then [take (nat toSend) val]
            else take (nat toSend) val # rangePump start rangeLength bytesSkipped (bytesSent + toSend) rest)))"

text \<open>
  \<^verbatim>\<open>handleBlobRequest\<close>. The two awaited values are arguments: \<open>cachedFile\<close> is the result
  of \<^verbatim>\<open>checkCache(sha256)\<close> and \<open>fetchResult\<close> is the \<^verbatim>\<open>StreamResult\<close> object that
  \<^verbatim>\<open>getOrCreateFetch\<close> resolves to. That object is shared by every request that waited on
  the same promise, so the handler returns it with the lock its \<^verbatim>\<open>tee()\<close> call has taken.
  An exception thrown by the handler is the \<open>Inl\<close> result. The branch that is consumed only
  to drive the hash stream produces no output and is dropped.
\<close>

definition handleBlobRequest ::
  "(string \<Rightarrow> string option) \<Rightarrow> request \<Rightarrow> ParsedRequest \<Rightarrow> bytes option \<Rightarrow> StreamResult
     \<Rightarrow> js_error + (response \<times> StreamResult)" where
  "handleBlobRequest mime_getType req parsed cachedFile fetchResult =
     (let isHead = (req_method req = ''HEAD'');
          rangeHeader = req_headers req ''Range'';
          etag = generateETag (sha256 parsed)
      in
      if \<not> truthy rangeHeader \<and> checkIfNoneMatch req etag
      then Inr (createNotModifiedResponse etag, fetchResult)
      else
        (case cachedFile of
           Some file \<Rightarrow>
             Inr (handleCachedFile mime_getType req file (extension parsed) isHead rangeHeader etag,
                  fetchResult)
         | None \<Rightarrow>
             (case stream fetchResult of
                None \<Rightarrow> Inr (createErrorResponse 404 ''Blob not found'', fetchResult)
              | Some s \<Rightarrow>
                  (case tee s of
                     Inl e \<Rightarrow> Inl e
                   | Inr (s', requestStream, hashConsumptionStream) \<Rightarrow>
                       (let fetchResult' = fetchResult\<lparr>stream := Some s'\<rparr>;
                            cType = contentType fetchResult;
                            cLength = contentLength fetchResult;
                            common = [(''Accept-Ranges'', ''bytes''), (''ETag'', etag)]
                                     @ getCacheControlHeaders
                        in
                        if isHead then
                          Inr (addCorsHeaders
                                 \<lparr>status = 200,
                                  headers =
                                    (let h = (''Content-Type'', cType) # common in
                                     case cLength of
                                       None \<Rightarrow> h
                                     | Some n \<Rightarrow> headers_set h ''Content-Length'' (toString n)),
                                  body = Null\<rparr>,
                               fetchResult')
                        else
                          (let full =
                                 addCorsHeaders
                                   \<lparr>status = 200,
                                    headers =
                                      (''Content-Type'', cType) #
                                      (case cLength of
                                         None \<Rightarrow> []
                                       | Some n \<Rightarrow> [(''Content-Length'', toString n)]) @ common,
                                    body = Stream (chunks requestStream)\<rparr>
                           in
                           if truthy rangeHeader then
                             (case rangeMatch (the rangeHeader) of
                                None \<Rightarrow> Inr (full, fetchResult')
                              | Some (g1, g2) \<Rightarrow>
                                  (case cLength of
                                     None \<Rightarrow>
                                       Inr (addCorsHeaders
                                              \<lparr>status = 200,
                                               headers = (''Content-Type'', cType) # common,
                                               body = Stream (chunks requestStream)\<rparr>,
                                            fetchResult')
                                   | Some n \<Rightarrow>
                                       (let start = parseInt g1;
                                            endByte = (if g2 \<noteq> [] then parseInt g2 else n - 1)
                                        in
                                        if start < 0 \<or> start \<ge> n \<or> endByte \<ge> n \<or> start > endByte
                                        then Inr (createErrorResponse 416 ''Range not satisfiable'',
                                                  fetchResult')
                                        else
                                          (let rangeLength = endByte - start + 1 in
                                           Inr (addCorsHeaders
                                                  \<lparr>status = 206,
                                                   headers =
                                                     [(''Content-Type'', cType),
                                                      (''Content-Length'', toString rangeLength),
                                                      (''Content-Range'',
                                                        ''bytes '' @ toString start @ ''-'' @
                                                        toString endByte @ ''/'' @ toString n)]
                                                     @ common,
                                                   body =
                                                     Stream (rangePump start rangeLength 0 0
                                                               (chunks requestStream))\<rparr>,
                                                fetchResult')))))
                           else Inr (full, fetchResult')))))))"

subsection \<open>The runtime's fetch\<close>

text \<open>
  The network is an argument. \<open>answer net url rangeArg\<close> is what the server at \<open>url\<close> answers
  to one GET request with that \<^verbatim>\<open>Range\<close> header: a response, or a failure of the exchange
  (\<open>Threw True\<close> is the \<^verbatim>\<open>AbortError\<close> raised when the timeout aborts the request,
  \<open>Threw False\<close> any other error). \<open>resolve net base location\<close> is the URL parser,
  \<^verbatim>\<open>new URL(location, base)\<close>, and \<open>redirectLimit net\<close> the number of redirects the runtime
  follows (20 in the Fetch standard).

  \<^verbatim>\<open>fetch(url, { headers, signal })\<close> is called without a \<^verbatim>\<open>redirect\<close> option, so its redirect
  mode is \<^verbatim>\<open>follow\<close>: a response with a redirect status (301, 302, 303, 307, 308) and a
  \<^verbatim>\<open>Location\<close> header is not handed to the caller. The runtime requests the location
  itself, and the promise rejects when the location does not parse or the limit is
  reached. Every other response is the result of \<^verbatim>\<open>fetch\<close>. The second component of the
  result lists the URLs requested, in order.
\<close>

datatype fetch_outcome = Responded response | Threw bool

record network =
  answer :: "string \<Rightarrow> string option \<Rightarrow> fetch_outcome"
  resolve :: "string \<Rightarrow> string \<Rightarrow> string option"
  redirectLimit :: nat

definition isRedirectStatus :: "nat \<Rightarrow> bool" where
  "isRedirectStatus st = (st \<in> set [301, 302, 303, 307, 308])"

fun fetchFollow :: "network \<Rightarrow> nat \<Rightarrow> string \<Rightarrow> string option \<Rightarrow> fetch_outcome \<times> string list" where
  "fetchFollow net remaining url rangeArg =
     (case answer net url rangeArg of
        Threw isAbort \<Rightarrow> (Threw isAbort, [url])
      | Responded resp \<Rightarrow>
          if isRedirectStatus (status resp) then
            (case headers_get (headers resp) ''Location'' of
               None \<Rightarrow> (Responded resp, [url])
             | Some location \<Rightarrow>
                 (case resolve net url location of
                    None \<Rightarrow> (Threw False, [url])
                  | Some target \<Rightarrow>
                      (case remaining of
                         0 \<Rightarrow> (Threw False, [url])
                       | Suc n \<Rightarrow>
                           (let (result, wire) = fetchFollow net n target rangeArg
                            in (result, url # wire)))))
          else (Responded resp, [url]))"

definition fetch :: "network \<Rightarrow> string \<Rightarrow> string option \<Rightarrow> fetch_outcome \<times> string list" where
  "fetch net url rangeArg = fetchFollow net (redirectLimit net) url rangeArg"

subsection \<open>src/proxy.ts: the upstream fetcher\<close>

definition normalizeServerUrl :: "string \<Rightarrow> string list" where
  "normalizeServerUrl server =
     (if prefix ''http://'' server \<or> prefix ''https://'' server then [server]
      else [''https://'' @ server, ''http://'' @ server])"

text \<open>\<^verbatim>\<open>serverUrl.replace(/\/$/, "")\<close>.\<close>

definition stripTrailingSlash :: "string \<Rightarrow> string" where
  "stripTrailingSlash s = (if s \<noteq> [] \<and> last s = CHR ''/'' then butlast s else s)"

definition blobUrl :: "string \<Rightarrow> string \<Rightarrow> string option \<Rightarrow> string" where
  "blobUrl serverUrl sha ext =
     stripTrailingSlash serverUrl @ (if truthy ext then ''/'' @ sha @ the ext else ''/'' @ sha)"

text \<open>The \<^verbatim>\<open>Range\<close> header of the request: set only when \<^verbatim>\<open>rangeHeader\<close> is truthy.\<close>

definition requestRange :: "string option \<Rightarrow> string option" where
  "requestRange rangeHeader = (if truthy rangeHeader then rangeHeader else None)"

definition response_ok :: "response \<Rightarrow> bool" where
  "response_ok r = (200 \<le> status r \<and> status r \<le> 299)"

text \<open>
  \<^verbatim>\<open>MAX_REDIRECTS\<close> is \<^verbatim>\<open>parseInt\<close> of the environment variable, or 5 when the variable is
  not set: an integer, or \<^verbatim>\<open>NaN\<close> when the variable does not start with a number. The test
  \<^verbatim>\<open>redirectCount > MAX_REDIRECTS\<close> is false for \<^verbatim>\<open>NaN\<close>.
\<close>

datatype number = Number int | NaN

definition exceeds :: "int \<Rightarrow> number \<Rightarrow> bool" where
  "exceeds i m = (case m of Number n \<Rightarrow> i > n | NaN \<Rightarrow> False)"

text \<open>
  Every call of \<^verbatim>\<open>fetch\<close> that the function makes is recorded: the redirect count and the
  server argument of the call of \<^verbatim>\<open>fetchFromServer\<close> that made it, the URLs the runtime
  requested for it, and what \<^verbatim>\<open>await fetch(...)\<close> gave.
\<close>

record fetch_call =
  atCount :: int
  serverArg :: string
  requests :: "string list"
  result :: fetch_outcome

text \<open>
  The body of the \<^verbatim>\<open>for\<close> loop over the candidate URLs of one call; \<open>follow\<close> is the
  recursive call that follows a redirect. An error that is not an \<^verbatim>\<open>AbortError\<close> is thrown
  again by the inner \<^verbatim>\<open>catch\<close> and caught by the outer one, which continues as well.
\<close>

fun fetchLoop ::
  "(string \<Rightarrow> (response option \<times> fetch_call list) option) \<Rightarrow> network
     \<Rightarrow> string \<Rightarrow> string \<Rightarrow> string option \<Rightarrow> string option \<Rightarrow> int \<Rightarrow> string list
     \<Rightarrow> (response option \<times> fetch_call list) option" where
  "fetchLoop follow net server sha ext rangeHeader redirectCount [] = Some (None, [])"
| "fetchLoop follow net server sha ext rangeHeader redirectCount (serverUrl # rest) =
     (let url = blobUrl serverUrl sha ext;
          (outcome, wire) = fetch net url (requestRange rangeHeader);
          call = \<lparr>atCount = redirectCount, serverArg = server, requests = wire, result = outcome\<rparr>
      in case outcome of
           Threw isAbort \<Rightarrow>
             map_option (\<lambda>(r, t). (r, call # t))
               (fetchLoop follow net server sha ext rangeHeader redirectCount rest)
         | Responded resp \<Rightarrow>
             (let location = headers_get (headers resp) ''Location'' in
              if status resp \<ge> 300 \<and> status resp < 400 \<and> truthy location
                 \<and> str_includes (the location) sha
              then map_option (\<lambda>(r, t). (r, call # t)) (follow (the location))
              else if response_ok resp \<or> status resp = 206 then Some (Some resp, [call])
              else if status resp = 404 then
                map_option (\<lambda>(r, t). (r, call # t))
                  (fetchLoop follow net server sha ext rangeHeader redirectCount rest)
              else Some (None, [call])))"

lemma fetchLoop_cong [fundef_cong]:
  assumes "\<And>loc. follow loc = follow' loc"
    and "net = net'" and "server = server'" and "sha = sha'" and "ext = ext'"
    and "rangeHeader = rangeHeader'" and "redirectCount = redirectCount'" and "urls = urls'"
  shows "fetchLoop follow net server sha ext rangeHeader redirectCount urls
         = fetchLoop follow' net' server' sha' ext' rangeHeader' redirectCount' urls'"
proof -
  have "follow = follow'" using assms(1) by (simp add: fun_eq_iff)
  then show ?thesis using assms by simp
qed

text \<open>
  \<^verbatim>\<open>fetchFromServer\<close>. With \<^verbatim>\<open>MAX_REDIRECTS\<close> being \<^verbatim>\<open>NaN\<close> nothing bounds the recursion, so
  the model counts the nested calls: \<open>depth\<close> is the number of calls allowed, and the
  result is \<open>None\<close> when a further call would be needed. Otherwise the result is the value
  returned, a response or \<^verbatim>\<open>null\<close>, with the calls of \<^verbatim>\<open>fetch\<close> made.
\<close>

fun fetchFromServer ::
  "nat \<Rightarrow> number \<Rightarrow> network \<Rightarrow> string \<Rightarrow> string \<Rightarrow> string option \<Rightarrow> string option \<Rightarrow> int
     \<Rightarrow> (response option \<times> fetch_call list) option" where
  "fetchFromServer 0 MAX_REDIRECTS net server sha ext rangeHeader redirectCount = None"
| "fetchFromServer (Suc depth) MAX_REDIRECTS net server sha ext rangeHeader redirectCount =
     (if exceeds redirectCount MAX_REDIRECTS then Some (None, [])
      else fetchLoop
             (\<lambda>location. fetchFromServer depth MAX_REDIRECTS net location sha ext rangeHeader
                            (redirectCount + 1))
             net server sha ext rangeHeader redirectCount (normalizeServerUrl server))"

subsection \<open>src/cache.ts: the cache directory and the metadata table\<close>

text \<open>
  The cache directory maps a file name (the digest) to the file's content. The table
  \<^verbatim>\<open>cache_metadata\<close> is the list of its rows in rowid order; \<^verbatim>\<open>sha256\<close> is its primary
  key. \<^verbatim>\<open>INSERT OR REPLACE\<close> deletes the row with the same key and appends the new row.
  The SQL statements themselves are taken to succeed.
\<close>

record cache_row =
  sha256_col :: string
  last_accessed :: nat
  size_col :: nat
  uploaded :: "nat option"

record cache_state =
  files :: "string \<rightharpoonup> bytes"
  cache_metadata :: "cache_row list"

definition db_select :: "cache_row list \<Rightarrow> string \<Rightarrow> cache_row option" where
  "db_select tbl sha = find (\<lambda>r. sha256_col r = sha) tbl"

definition db_delete :: "cache_row list \<Rightarrow> string \<Rightarrow> cache_row list" where
  "db_delete tbl sha = filter (\<lambda>r. sha256_col r \<noteq> sha) tbl"

definition db_insert_or_replace :: "cache_row list \<Rightarrow> cache_row \<Rightarrow> cache_row list" where
  "db_insert_or_replace tbl row = db_delete tbl (sha256_col row) @ [row]"

text \<open>
  \<^verbatim>\<open>SELECT sha256, size FROM cache_metadata ORDER BY last_accessed ASC\<close>: the statement
  names no second sort key, so nothing in the code orders rows with equal
  \<^verbatim>\<open>last_accessed\<close>. The model takes them in rowid order, the order in which the index
  \<^verbatim>\<open>idx_last_accessed\<close> holds them, which a stable sort of the table gives.
\<close>

definition db_order_by_last_accessed :: "cache_row list \<Rightarrow> cache_row list" where
  "db_order_by_last_accessed tbl = sort_key last_accessed tbl"

text \<open>
  \<^verbatim>\<open>file.delete()\<close>: throws (\<open>None\<close>) when the file does not exist or when the file system
  refuses (\<open>deleteFails\<close>), and removes the file otherwise.
\<close>

definition file_delete :: "(string \<Rightarrow> bool) \<Rightarrow> cache_state \<Rightarrow> string \<Rightarrow> cache_state option" where
  "file_delete deleteFails st sha =
     (if deleteFails sha \<or> files st sha = None then None
      else Some (st\<lparr>files := (files st)(sha := None)\<rparr>))"

definition updateAccessTime :: "nat \<Rightarrow> cache_state \<Rightarrow> string \<Rightarrow> nat option \<Rightarrow> cache_state" where
  "updateAccessTime now st sha sizeArg =
     (let size' =
            (case sizeArg of
               Some n \<Rightarrow> Some n
             | None \<Rightarrow>
                 (case db_select (cache_metadata st) sha of
                    Some existing \<Rightarrow> Some (size_col existing)
                  | None \<Rightarrow>
                      (case files st sha of
                         None \<Rightarrow> None
                       | Some content \<Rightarrow> Some (length content))))
      in case size' of
           None \<Rightarrow> st
         | Some n \<Rightarrow>
             (let uploadedTimestamp =
                    (case db_select (cache_metadata st) sha of
                       None \<Rightarrow> None
                     | Some existing \<Rightarrow> uploaded existing)
              in st\<lparr>cache_metadata :=
                      db_insert_or_replace (cache_metadata st)
                        \<lparr>sha256_col = sha, last_accessed = now, size_col = n,
                         uploaded = uploadedTimestamp\<rparr>\<rparr>))"

text \<open>
  \<^verbatim>\<open>checkCache\<close>: the file if it exists; the access time update it starts without
  awaiting is applied to the state.
\<close>

definition checkCache :: "nat \<Rightarrow> cache_state \<Rightarrow> string \<Rightarrow> bytes option \<times> cache_state" where
  "checkCache now st sha =
     (case files st sha of
        Some file \<Rightarrow> (Some file, updateAccessTime now st sha None)
      | None \<Rightarrow> (None, st))"

definition getCacheSize :: "cache_state \<Rightarrow> nat" where
  "getCacheSize st = sum_list (map size_col (cache_metadata st))"

text \<open>
  The loop of \<^verbatim>\<open>pruneCache\<close> over the rows of the query. A file that cannot be deleted
  still loses its row, but its size is not added to \<open>freedSize\<close>.
\<close>

fun pruneLoop ::
  "(string \<Rightarrow> bool) \<Rightarrow> nat \<Rightarrow> cache_row list \<Rightarrow> cache_state \<Rightarrow> nat \<Rightarrow> nat \<Rightarrow> cache_state \<times> nat \<times> nat" where
  "pruneLoop deleteFails sizeToFree [] st freedSize prunedCount = (st, freedSize, prunedCount)"
| "pruneLoop deleteFails sizeToFree (row # rows) st freedSize prunedCount =
     (if freedSize \<ge> sizeToFree then (st, freedSize, prunedCount)
      else
        (case file_delete deleteFails st (sha256_col row) of
           Some st' \<Rightarrow>
             pruneLoop deleteFails sizeToFree rows
               (st'\<lparr>cache_metadata := db_delete (cache_metadata st') (sha256_col row)\<rparr>)
               (freedSize + size_col row) (prunedCount + 1)
         | None \<Rightarrow>
             pruneLoop deleteFails sizeToFree rows
               (st\<lparr>cache_metadata := db_delete (cache_metadata st) (sha256_col row)\<rparr>)
               freedSize prunedCount))"

text \<open>
  \<^verbatim>\<open>Math.floor(MAX_CACHE_SIZE * 0.9)\<close> is computed in IEEE 754 double precision. The
  literal \<^verbatim>\<open>0.9\<close> is the double \<open>8106479329266893 / 2 ^ 53\<close>, and \<^verbatim>\<open>MAX_CACHE_SIZE\<close>
  is an integer (\<^verbatim>\<open>parseSize\<close> ends with \<^verbatim>\<open>Math.floor\<close>), so the exact product is
  \<open>n / 2 ^ 53\<close> with \<open>n = MAX_CACHE_SIZE * 8106479329266893\<close>. The product of two doubles
  is the exact product rounded to 53 significant bits, ties to the even neighbour:
  \<open>normShift n\<close> is the number of low bits of \<open>n\<close> that do not fit, \<open>roundToEven n s\<close>
  rounds \<open>n\<close> to a multiple of \<open>2 ^ s\<close>, \<open>times09\<close> is the rounded product in units of
  \<open>2 ^ -53\<close> and \<open>floorTimes09\<close> its integer part.
\<close>

function normShift :: "nat \<Rightarrow> nat" where
  "normShift n = (if n < 2 ^ 53 then 0 else Suc (normShift (n div 2)))"
  by pat_completeness auto
termination
  by (relation "measure (\<lambda>n. n)") auto

definition roundToEven :: "nat \<Rightarrow> nat \<Rightarrow> nat" where
  "roundToEven n s =
     (let q = n div 2 ^ s; r = n mod 2 ^ s
      in if 2 * r < 2 ^ s \<or> (2 * r = 2 ^ s \<and> even q) then q * 2 ^ s else (q + 1) * 2 ^ s)"

definition times09 :: "nat \<Rightarrow> nat" where
  "times09 m = (let n = m * 8106479329266893 in roundToEven n (normShift n))"

definition floorTimes09 :: "nat \<Rightarrow> nat" where
  "floorTimes09 m = times09 m div 2 ^ 53"

text \<open>\<^verbatim>\<open>pruneCache\<close>. The result is the pruned count and the new state.\<close>

definition pruneCache :: "nat option \<Rightarrow> (string \<Rightarrow> bool) \<Rightarrow> cache_state \<Rightarrow> nat \<times> cache_state" where
  "pruneCache MAX_CACHE_SIZE deleteFails st =
     (case MAX_CACHE_SIZE of
        None \<Rightarrow> (0, st)
      | Some maxSize \<Rightarrow>
          (let currentSize = getCacheSize st in
           if currentSize \<le> maxSize then (0, st)
           else
             (let targetSize = floorTimes09 maxSize;
                  sizeToFree = currentSize - targetSize
              in if sizeToFree \<le> 0 then (0, st)
                 else
                   (let rows = db_order_by_last_accessed (cache_metadata st);
                        (st', freedSize, prunedCount) = pruneLoop deleteFails sizeToFree rows st 0 0
                    in (prunedCount, st')))))"

definition pruneCacheIfNeeded :: "nat option \<Rightarrow> (string \<Rightarrow> bool) \<Rightarrow> cache_state \<Rightarrow> cache_state" where
  "pruneCacheIfNeeded MAX_CACHE_SIZE deleteFails st =
     (case MAX_CACHE_SIZE of
        None \<Rightarrow> st
      | Some maxSize \<Rightarrow>
          if getCacheSize st > maxSize then snd (pruneCache MAX_CACHE_SIZE deleteFails st) else st)"

subsection \<open>src/hash-stream.ts\<close>

text \<open>
  The incremental hasher is represented by the bytes it has been fed; the function that maps
  those bytes to the hexadecimal SHA-256 digest (\<^verbatim>\<open>digest("hex")\<close>) is an argument
  \<open>sha256hex\<close>. \<open>hashTransform\<close> is the \<^verbatim>\<open>transform\<close> callback: it updates the hasher and
  enqueues the chunk.
\<close>

definition hashTransform :: "bytes \<times> bytes list \<Rightarrow> bytes \<Rightarrow> bytes \<times> bytes list" where
  "hashTransform s chunk = (fst s @ chunk, snd s @ [chunk])"

definition getFinalHash :: "(bytes \<Rightarrow> string) \<Rightarrow> bytes \<Rightarrow> string" where
  "getFinalHash sha256hex hasher = sha256hex hasher"

text \<open>The constructor stores \<^verbatim>\<open>expectedHash.toLowerCase()\<close>.\<close>

definition validateHash :: "(bytes \<Rightarrow> string) \<Rightarrow> string \<Rightarrow> bytes \<Rightarrow> bool" where
  "validateHash sha256hex expectedHash hasher =
     (toLowerCase (getFinalHash sha256hex hasher) = toLowerCase expectedHash)"

subsection \<open>cache-stream.ts: the cache file writer\<close>

definition cacheStreamStart :: "cache_state \<Rightarrow> string \<Rightarrow> cache_state" where
  "cacheStreamStart st sha = st\<lparr>files := (files st)(sha \<mapsto> [])\<rparr>"

definition cacheStreamWrite :: "string \<Rightarrow> cache_state \<Rightarrow> bytes \<Rightarrow> cache_state" where
  "cacheStreamWrite sha st chunk =
     st\<lparr>files := (files st)(sha \<mapsto> (case files st sha of None \<Rightarrow> chunk | Some content \<Rightarrow> content @ chunk))\<rparr>"

text \<open>
  \<^verbatim>\<open>close\<close>: if the file exists, record its size and access time, then start the pruning
  check (applied here at once).
\<close>

definition cacheStreamClose :: "nat option \<Rightarrow> (string \<Rightarrow> bool) \<Rightarrow> nat \<Rightarrow> cache_state \<Rightarrow> string \<Rightarrow> cache_state" where
  "cacheStreamClose MAX_CACHE_SIZE deleteFails now st sha =
     (case files st sha of
        None \<Rightarrow> st
      | Some content \<Rightarrow>
          pruneCacheIfNeeded MAX_CACHE_SIZE deleteFails
            (updateAccessTime now st sha (Some (length content))))"

text \<open>\<^verbatim>\<open>abort\<close>: delete the partial file, ignoring a failure.\<close>

definition cacheStreamAbort :: "(string \<Rightarrow> bool) \<Rightarrow> cache_state \<Rightarrow> string \<Rightarrow> cache_state" where
  "cacheStreamAbort deleteFails st sha =
     (case file_delete deleteFails st sha of None \<Rightarrow> st | Some st' \<Rightarrow> st')"

subsection \<open>stream-utils.ts: hashing and caching in one pass\<close>

text \<open>
  \<^verbatim>\<open>createHashAndCacheStream\<close> builds a pipeline that then runs on its own: the upstream is
  piped through the hash stream, the hashed stream is split by \<^verbatim>\<open>tee()\<close> into the cache
  branch, piped to the cache writer, and the response branch, and two asynchronous blocks
  produce the promises \<^verbatim>\<open>cacheWrite\<close> and \<^verbatim>\<open>hashValidation\<close>. The state of the pipeline:
  the bytes fed to the hasher, the state of the upstream, the chunks enqueued on the
  response branch, the state of the cache writer, whether \<^verbatim>\<open>cacheWrite\<close> has settled, the
  value \<^verbatim>\<open>hashValidation\<close> has resolved to, the order in which the two promises settled, and
  the cache.
\<close>

datatype upstream_state = Flowing | Ended | Errored

datatype sink_state = Writing | Closed | Aborted | Failed

datatype settled = CacheWriteSettled | HashValidationSettled bool

record pipeline =
  hasher :: bytes
  source :: upstream_state
  responseChunks :: "bytes list"
  sink :: sink_state
  cacheWritten :: bool
  hashValid :: "bool option"
  settledLog :: "settled list"
  cache :: cache_state

text \<open>
  What happens to the pipeline: the upstream delivers a chunk, ends or fails; the cache
  writer fails (its \<^verbatim>\<open>write\<close> throws); and the block behind \<^verbatim>\<open>hashValidation\<close> gets its
  turn to run.
\<close>

datatype stream_event = UpstreamChunk bytes | UpstreamEnd | UpstreamError | WriterError | ValidationTurn

text \<open>
  The creation. The \<^verbatim>\<open>start\<close> callback of the cache writer creates the file; when it throws
  instead (\<open>startFails\<close>), \<^verbatim>\<open>pipeTo\<close> rejects before a chunk is written and the block behind
  \<^verbatim>\<open>cacheWrite\<close> catches the error, which settles the promise.
\<close>

definition createHashAndCacheStream :: "bool \<Rightarrow> cache_state \<Rightarrow> string \<Rightarrow> pipeline" where
  "createHashAndCacheStream startFails st sha =
     (if startFails
      then \<lparr>hasher = [], source = Flowing, responseChunks = [], sink = Failed, cacheWritten = True,
            hashValid = None, settledLog = [CacheWriteSettled], cache = st\<rparr>
      else \<lparr>hasher = [], source = Flowing, responseChunks = [], sink = Writing, cacheWritten = False,
            hashValid = None, settledLog = [], cache = cacheStreamStart st sha\<rparr>)"

text \<open>
  One event. A chunk goes through \<^verbatim>\<open>transform\<close> and is enqueued on both branches; the cache
  branch writes it while the writer is alive. At the end of the upstream \<^verbatim>\<open>pipeTo\<close> closes
  the writer, on an upstream error it aborts the writer, and when the writer fails it
  cancels the cache branch; in each case \<^verbatim>\<open>pipeTo\<close> settles and with it \<^verbatim>\<open>cacheWrite\<close>, whose
  block catches every error. The block behind \<^verbatim>\<open>hashValidation\<close> awaits \<^verbatim>\<open>cacheWrite\<close>
  first, so its turn does nothing before that promise has settled; then it finalizes the
  hasher with the bytes hashed so far. The digest is taken once (\<^verbatim>\<open>getFinalHash\<close> keeps
  it), and \<^verbatim>\<open>digest\<close> leaves a \<^verbatim>\<open>Bun.CryptoHasher\<close> without key usable, so the chunks that
  arrive later still pass; \<open>hasher\<close> goes on recording the bytes that went through.
\<close>

definition pipelineStep ::
  "(bytes \<Rightarrow> string) \<Rightarrow> nat option \<Rightarrow> (string \<Rightarrow> bool) \<Rightarrow> nat \<Rightarrow> string \<Rightarrow> pipeline \<Rightarrow> stream_event
     \<Rightarrow> pipeline" where
  "pipelineStep sha256hex MAX_CACHE_SIZE deleteFails now sha p e =
     (case e of
        UpstreamChunk chunk \<Rightarrow>
          if source p = Flowing then
            (let (hasher', enqueued) = hashTransform (hasher p, responseChunks p) chunk
             in p\<lparr>hasher := hasher', responseChunks := enqueued,
                  cache := (if sink p = Writing then cacheStreamWrite sha (cache p) chunk else cache p)\<rparr>)
          else p
      | UpstreamEnd \<Rightarrow>
          if source p = Flowing then
            (if sink p = Writing
             then p\<lparr>source := Ended, sink := Closed, cacheWritten := True,
                    settledLog := settledLog p @ [CacheWriteSettled],
                    cache := cacheStreamClose MAX_CACHE_SIZE deleteFails now (cache p) sha\<rparr>
             else p\<lparr>source := Ended\<rparr>)
          else p
      | UpstreamError \<Rightarrow>
          if source p = Flowing then
            (if sink p = Writing
             then p\<lparr>source := Errored, sink := Aborted, cacheWritten := True,
                    settledLog := settledLog p @ [CacheWriteSettled],
                    cache := cacheStreamAbort deleteFails (cache p) sha\<rparr>
             else p\<lparr>source := Errored\<rparr>)
          else p
      | WriterError \<Rightarrow>
          if sink p = Writing
          then p\<lparr>sink := Failed, cacheWritten := True, settledLog := settledLog p @ [CacheWriteSettled]\<rparr>
          else p
      | ValidationTurn \<Rightarrow>
          if cacheWritten p \<and> hashValid p = None then
            (let isValid = validateHash sha256hex sha (hasher p)
             in p\<lparr>hashValid := Some isValid,
                  settledLog := settledLog p @ [HashValidationSettled isValid]\<rparr>)
          else p)"

definition runPipeline ::
  "(bytes \<Rightarrow> string) \<Rightarrow> nat option \<Rightarrow> (string \<Rightarrow> bool) \<Rightarrow> nat \<Rightarrow> string \<Rightarrow> pipeline
     \<Rightarrow> stream_event list \<Rightarrow> pipeline" where
  "runPipeline sha256hex MAX_CACHE_SIZE deleteFails now sha p es =
     foldl (pipelineStep sha256hex MAX_CACHE_SIZE deleteFails now sha) p es"

text \<open>
  The callback that \<^verbatim>\<open>handleBlobRequest\<close> attaches to \<^verbatim>\<open>hashValidation\<close>: on an invalid
  hash it deletes the cache file and ignores a failure of the deletion.
\<close>

definition deleteInvalidCache :: "(string \<Rightarrow> bool) \<Rightarrow> cache_state \<Rightarrow> string \<Rightarrow> bool \<Rightarrow> cache_state" where
  "deleteInvalidCache deleteFails st sha isValid =
     (if \<not> isValid then (case file_delete deleteFails st sha of None \<Rightarrow> st | Some st' \<Rightarrow> st')
      else st)"

text \<open>
  A fetch on the miss path from the first upstream byte to the end of the background work,
  with a cache writer that does not fail: the upstream delivers its chunks and ends or
  fails, the validation block runs, and then the validation callback.
\<close>

datatype upstream_end = EndOfStream | StreamError

definition fetchCompletes ::
  "(bytes \<Rightarrow> string) \<Rightarrow> nat option \<Rightarrow> (string \<Rightarrow> bool) \<Rightarrow> nat \<Rightarrow> cache_state \<Rightarrow> string
     \<Rightarrow> bytes list \<Rightarrow> upstream_end \<Rightarrow> cache_state" where
  "fetchCompletes sha256hex MAX_CACHE_SIZE deleteFails now st sha upstream ending =
     (let p = runPipeline sha256hex MAX_CACHE_SIZE deleteFails now sha
                (createHashAndCacheStream False st sha)
                (map UpstreamChunk upstream
                 @ [case ending of EndOfStream \<Rightarrow> UpstreamEnd | StreamError \<Rightarrow> UpstreamError,
                    ValidationTurn])
      in case hashValid p of
           None \<Rightarrow> cache p
         | Some isValid \<Rightarrow> deleteInvalidCache deleteFails (cache p) sha isValid)"

subsection \<open>src/request-queue.ts: the in-flight map\<close>

text \<open>
  Promises are numbered in the order of their creation; \<open>promises\<close> holds the state of each
  and \<open>inFlightFetches\<close> is the map of the module. \<open>fetchCalls\<close> records every invocation
  of \<^verbatim>\<open>fetchFn\<close> with the digest it was started for and the promise that wraps it.
\<close>

datatype 'r promise_state = Pending | Fulfilled 'r | Rejected

record 'r queue =
  inFlightFetches :: "string \<rightharpoonup> nat"
  promises :: "'r promise_state list"
  fetchCalls :: "(string \<times> nat) list"

definition emptyQueue :: "'r queue" where
  "emptyQueue = \<lparr>inFlightFetches = Map.empty, promises = [], fetchCalls = []\<rparr>"

text \<open>
  The argument \<^verbatim>\<open>fetchFn\<close> is called inside the \<^verbatim>\<open>try\<close> block of the wrapper. It either
  returns a promise, which the wrapper awaits, or throws before it returns one. The
  function that \<^verbatim>\<open>handleBlobRequest\<close> passes is declared \<^verbatim>\<open>async\<close> and always returns a
  promise.
\<close>

datatype fetchFn = ReturnsPromise | Throws

text \<open>
  \<^verbatim>\<open>getOrCreateFetch\<close> up to its return: the lookup, and for an absent digest the start of
  \<^verbatim>\<open>fetchFn\<close> and the insertion of the new promise. JavaScript runs this part without
  interruption. When \<^verbatim>\<open>fetchFn\<close> throws, the \<^verbatim>\<open>finally\<close> block runs at once, before
  \<^verbatim>\<open>inFlightFetches.set\<close>, and the promise that is then stored is already rejected.
\<close>

definition getOrCreateFetch :: "'r queue \<Rightarrow> string \<Rightarrow> fetchFn \<Rightarrow> nat \<times> 'r queue" where
  "getOrCreateFetch q sha fn =
     (case inFlightFetches q sha of
        Some existingFetch \<Rightarrow> (existingFetch, q)
      | None \<Rightarrow>
          (let fetchPromise = length (promises q);
               started =
                 (case fn of
                    ReturnsPromise \<Rightarrow>
                      q\<lparr>promises := promises q @ [Pending],
                        fetchCalls := fetchCalls q @ [(sha, fetchPromise)]\<rparr>
                  | Throws \<Rightarrow>
                      q\<lparr>inFlightFetches := (inFlightFetches q)(sha := None),
                        promises := promises q @ [Rejected],
                        fetchCalls := fetchCalls q @ [(sha, fetchPromise)]\<rparr>)
           in (fetchPromise,
               started\<lparr>inFlightFetches := (inFlightFetches started)(sha \<mapsto> fetchPromise)\<rparr>)))"

text \<open>
  The rest of the wrapper, run when \<^verbatim>\<open>fetchFn\<close> has finished: the \<^verbatim>\<open>finally\<close> block deletes
  the digest from the map and the promise settles with the outcome of \<^verbatim>\<open>fetchFn\<close>.
\<close>

definition fetchFinished :: "'r queue \<Rightarrow> string \<Rightarrow> nat \<Rightarrow> 'r promise_state \<Rightarrow> 'r queue" where
  "fetchFinished q sha fetchPromise outcome =
     q\<lparr>inFlightFetches := (inFlightFetches q)(sha := None),
       promises := (promises q)[fetchPromise := outcome]\<rparr>"

text \<open>
  The events of the queue: a call of \<^verbatim>\<open>getOrCreateFetch\<close> for a digest with a
  \<^verbatim>\<open>fetchFn\<close>, and the settling of the promise that a \<^verbatim>\<open>fetchFn\<close> returned, with its
  outcome.
\<close>

datatype 'r queue_event = Call string fetchFn | Finish nat "'r promise_state"

definition queueStep :: "'r queue \<Rightarrow> 'r queue_event \<Rightarrow> 'r queue" where
  "queueStep q e =
     (case e of
        Call sha fn \<Rightarrow> snd (getOrCreateFetch q sha fn)
      | Finish p outcome \<Rightarrow>
          (case find (\<lambda>c. snd c = p) (fetchCalls q) of
             None \<Rightarrow> q
           | Some (sha, p') \<Rightarrow>
               if promises q ! p = Pending \<and> outcome \<noteq> Pending then fetchFinished q sha p outcome
               else q))"

definition runQueue :: "'r queue_event list \<Rightarrow> 'r queue" where
  "runQueue es = foldl queueStep emptyQueue es"

text \<open>The runs of the program: every \<^verbatim>\<open>fetchFn\<close> is the asynchronous function of the handler.\<close>

definition handlerEvent :: "'r queue_event \<Rightarrow> bool" where
  "handlerEvent e = (case e of Call sha fn \<Rightarrow> fn = ReturnsPromise | Finish p outcome \<Rightarrow> True)"

subsection \<open>Notions used in the statements\<close>

text \<open>
  The condition under which \<^verbatim>\<open>fetchFromServer\<close> follows a redirect itself: the response that
  \<^verbatim>\<open>fetch\<close> gave has a status from 300 to 399 and a non-empty \<^verbatim>\<open>Location\<close> header that
  contains the digest.
\<close>

definition followsRedirect :: "response \<Rightarrow> string \<Rightarrow> bool" where
  "followsRedirect resp sha =
     (status resp \<ge> 300 \<and> status resp < 400 \<and> truthy (headers_get (headers resp) ''Location'')
      \<and> str_includes (the (headers_get (headers resp) ''Location'')) sha)"




text \<open>
  What the redirect handling of \<^verbatim>\<open>fetchFromServer\<close> itself ensures of the calls of
  \<^verbatim>\<open>fetch\<close> made from a call with redirect count \<open>rc\<close>: each is made at a count from
  \<open>rc\<close> on that does not exceed the limit, those of the call itself go to its server
  argument, and those made at a higher count go to a \<^verbatim>\<open>Location\<close> that contains the digest.
\<close>

definition ownRedirectsChecked :: "number \<Rightarrow> string \<Rightarrow> int \<Rightarrow> string \<Rightarrow> fetch_call list \<Rightarrow> bool" where
  "ownRedirectsChecked mr sha rc server calls =
     list_all (\<lambda>c. rc \<le> atCount c \<and> \<not> exceeds (atCount c) mr
                  \<and> (if atCount c = rc then serverArg c = server else str_includes (serverArg c) sha)) calls"

text \<open>
  The eviction in the words of the specification. A row is deletable when the deletion of
  its file succeeds. \<open>evictedRows\<close> goes through the rows in the order given and evicts
  until the bytes freed reach \<open>sizeToFree\<close>; a row whose file cannot be deleted is evicted
  too, and frees nothing. \<open>freedBy\<close> is the number of bytes that the eviction of some
  rows frees. \<open>lruDigestOrder\<close> is the order of the specification: ascending
  \<^verbatim>\<open>last_accessed\<close>, and ascending digest among rows with equal \<^verbatim>\<open>last_accessed\<close>.
\<close>

definition deletable :: "(string \<Rightarrow> bool) \<Rightarrow> cache_state \<Rightarrow> cache_row \<Rightarrow> bool" where
  "deletable deleteFails st row = (\<not> deleteFails (sha256_col row) \<and> files st (sha256_col row) \<noteq> None)"

fun evictedRows :: "(string \<Rightarrow> bool) \<Rightarrow> cache_state \<Rightarrow> nat \<Rightarrow> cache_row list \<Rightarrow> nat \<Rightarrow> cache_row list" where
  "evictedRows deleteFails st sizeToFree [] freed = []"
| "evictedRows deleteFails st sizeToFree (row # rows) freed =
     (if freed \<ge> sizeToFree then []
      else row # evictedRows deleteFails st sizeToFree rows
                   (if deletable deleteFails st row then freed + size_col row else freed))"

definition freedBy :: "(string \<Rightarrow> bool) \<Rightarrow> cache_state \<Rightarrow> cache_row list \<Rightarrow> nat" where
  "freedBy deleteFails st rows = sum_list (map size_col (filter (deletable deleteFails st) rows))"

definition lruDigestOrder :: "cache_row list \<Rightarrow> cache_row list" where
  "lruDigestOrder tbl = sort_key last_accessed (sort_key sha256_col tbl)"

text \<open>
  The invariant of the in-flight map: promises and \<^verbatim>\<open>fetchFn\<close> calls are numbered alike, an
  entry of the map is the pending promise of a fetch for its digest, and every pending
  promise is the entry of its digest.
\<close>

definition queueInv :: "'r queue \<Rightarrow> bool" where
  "queueInv q =
     (map snd (fetchCalls q) = [0..<length (promises q)]
      \<and> (\<forall>sha p. inFlightFetches q sha = Some p \<longrightarrow>
            p < length (promises q) \<and> promises q ! p = Pending \<and> fetchCalls q ! p = (sha, p))
      \<and> (\<forall>p < length (promises q). promises q ! p = Pending \<longrightarrow>
            inFlightFetches q (fst (fetchCalls q ! p)) = Some p))"








text \<open>Values for the examples: a digest of 64 hexadecimal digits and a request for it.\<close>

definition exampleDigest :: string where
  "exampleDigest = replicate 64 CHR ''a''"

definition exampleParsed :: ParsedRequest where
  "exampleParsed = \<lparr>sha256 = exampleDigest, extension = None, authorPubkeys = [], serverHints = []\<rparr>"

definition exampleRequest :: "(string \<times> string) list \<Rightarrow> request" where
  "exampleRequest hs = \<lparr>req_method = ''GET'', req_headers = map_of hs\<rparr>"

text \<open>
  Networks for the examples. In \<open>directNet\<close> every URL answers with the same response. In
  \<open>redirectingNet\<close> the blob URL of the example server answers 302 with a \<^verbatim>\<open>Location\<close>
  on another host that does not contain the digest, and that location answers 200 with
  three bytes. In \<open>chainNet\<close> every URL shorter than 95 characters answers 302 with a
  \<^verbatim>\<open>Location\<close> one character longer, which still contains the digest; the blob URL of the
  example server has 88 characters, so the eighth request is answered with 200.
\<close>

definition exampleServer :: string where
  "exampleServer = ''https://cdn.example.com''"


definition redirectingNet :: network where
  "redirectingNet =
     \<lparr>answer = (\<lambda>url rangeArg.
         if url = blobUrl exampleServer exampleDigest None
         then Responded \<lparr>status = 302, headers = [(''Location'', ''https://evil.example.com/other'')],
                          body = Null\<rparr>
         else if url = ''https://evil.example.com/other''
         then Responded \<lparr>status = 200, headers = [], body = Blob [1, 2, 3]\<rparr>
         else Responded \<lparr>status = 404, headers = [], body = Null\<rparr>),
      resolve = (\<lambda>base location. Some location),
      redirectLimit = 20\<rparr>"

definition chainNet :: network where
  "chainNet =
     \<lparr>answer = (\<lambda>url rangeArg.
         if length url < 95
         then Responded \<lparr>status = 302, headers = [(''Location'', url @ ''x'')], body = Null\<rparr>
         else Responded \<lparr>status = 200, headers = [], body = Blob [1, 2, 3]\<rparr>),
      resolve = (\<lambda>base location. Some location),
      redirectLimit = 20\<rparr>"


definition helloFile :: bytes where
  "helloFile = [104, 101, 108, 108, 111, 10]"

definition noFetchResult :: StreamResult where
  "noFetchResult = \<lparr>stream = None, contentType = ''application/octet-stream'', contentLength = None,
                    hashValidation = False\<rparr>"

text \<open>The result of a fetch that found the blob upstream: three bytes in two chunks.\<close>

definition sharedResult :: StreamResult where
  "sharedResult = \<lparr>stream = Some \<lparr>locked = False, chunks = [[1, 2], [3]]\<rparr>,
                    contentType = ''application/octet-stream'', contentLength = Some 3,
                    hashValidation = True\<rparr>"

text \<open>
  Two cache states. In \<open>tieState\<close> two blobs of six bytes have the same access time, and
  the row of the greater digest was inserted first. In \<open>threeBlobs\<close> three blobs of 400
  bytes were accessed one after the other.
\<close>

definition digestB :: string where
  "digestB = replicate 64 CHR ''b''"

definition digestC :: string where
  "digestC = replicate 64 CHR ''c''"

definition rowA :: cache_row where
  "rowA = \<lparr>sha256_col = exampleDigest, last_accessed = 1000, size_col = 6, uploaded = None\<rparr>"

definition rowB :: cache_row where
  "rowB = \<lparr>sha256_col = digestB, last_accessed = 1000, size_col = 6, uploaded = None\<rparr>"

definition tieState :: cache_state where
  "tieState = \<lparr>files = [exampleDigest \<mapsto> helloFile, digestB \<mapsto> helloFile],
                cache_metadata = [rowB, rowA]\<rparr>"

definition blobRow :: "string \<Rightarrow> nat \<Rightarrow> cache_row" where
  "blobRow d t = \<lparr>sha256_col = d, last_accessed = t, size_col = 400, uploaded = None\<rparr>"

definition threeBlobs :: cache_state where
  "threeBlobs = \<lparr>files = [exampleDigest \<mapsto> replicate 400 0, digestB \<mapsto> replicate 400 0,
                           digestC \<mapsto> replicate 400 0],
                  cache_metadata = [blobRow exampleDigest 1000, blobRow digestB 2000, blobRow digestC 3000]\<rparr>"

section \<open>Properties\<close>

lemma toString_small:
  "toString 1 = [CHR 0x31]" "toString 3 = [CHR 0x33]" "toString 6 = [CHR 0x36]"
  by code_simp+

lemma parseInt_small:
  "parseInt [CHR 0x31] = 1" "parseInt [CHR 0x33] = 3"
  by code_simp+

subsection \<open>Conditional requests\<close>

lemma split_nonempty: "split sep s \<noteq> []"
  by (induction s) (auto split: list.splits)

lemma split_no_sep: "sep \<notin> set s \<Longrightarrow> split sep s = [s]"
  by (induction s) auto

lemma split_append_sep: "split sep (xs @ sep # ys) = split sep xs @ split sep ys"
proof (induction xs)
  case Nil
  then show ?case by simp
next
  case (Cons x xs)
  then show ?case
    using split_nonempty[of sep xs] by (cases "split sep xs") auto
qed

lemma split_item_left:
  assumes "sep \<notin> set item" and "post = [] \<or> hd post = sep"
  shows "item \<in> set (split sep (item @ post))"
proof (cases post)
  case Nil
  then show ?thesis using assms(1) by (simp add: split_no_sep)
next
  case (Cons p ps)
  then have "p = sep" using assms(2) by simp
  then show ?thesis
    using Cons assms(1) split_append_sep[of sep item ps] by (simp add: split_no_sep)
qed

lemma split_item:
  assumes "sep \<notin> set item" and "pre = [] \<or> last pre = sep" and "post = [] \<or> hd post = sep"
  shows "item \<in> set (split sep (pre @ item @ post))"
proof (cases "pre = []")
  case True
  then show ?thesis using split_item_left[OF assms(1,3)] by simp
next
  case False
  then have "pre = butlast pre @ [sep]" using assms(2) by (metis append_butlast_last_id)
  then obtain bp where bp: "pre = bp @ [sep]" by blast
  have "pre @ item @ post = bp @ sep # (item @ post)" using bp by simp
  then have "split sep (pre @ item @ post) = split sep bp @ split sep (item @ post)"
    by (simp only: split_append_sep)
  then show ?thesis using split_item_left[OF assms(1,3)] by simp
qed

lemma stripWeak_etag: "stripWeak (generateETag D) = generateETag D"
  by (simp add: stripWeak_def generateETag_def)

lemma stripWeak_weak: "stripWeak (''W/'' @ e) = e"
  by (simp add: stripWeak_def)

lemma checkIfNoneMatch_listed:
  assumes "req_headers req ''If-None-Match'' = Some (pre @ item @ post)"
    and "CHR '','' \<notin> set item"
    and "pre = [] \<or> last pre = CHR '',''"
    and "post = [] \<or> hd post = CHR '',''"
    and "trim item = generateETag D \<or> trim item = ''W/'' @ generateETag D"
  shows "checkIfNoneMatch req (generateETag D)"
proof -
  have ne: "item \<noteq> []" using assms(5) by (auto simp: trim_def generateETag_def)
  have mem: "item \<in> set (split CHR '','' (pre @ item @ post))"
    using split_item[OF assms(2,3,4)] .
  have "stripWeak (trim item) = generateETag D"
    using assms(5) stripWeak_etag stripWeak_weak by metis
  then have "\<exists>e \<in> set (split CHR '','' (pre @ item @ post)). stripWeak (trim e) = generateETag D"
    using mem by blast
  then show ?thesis
    using assms(1) ne by (auto simp: checkIfNoneMatch_def list_ex_iff Let_def)
qed


lemma comma_notin_exampleDigest: "CHR '','' \<notin> set exampleDigest"
  by (simp add: exampleDigest_def)


subsection \<open>Range requests on a cached file\<close>

lemma isDigit_dash: "\<not> isDigit CHR ''-''"
  by (simp add: isDigit_def)

lemma rangeMatchHere_bytes:
  assumes "list_all isDigit ds" and "ds \<noteq> []" and "list_all isDigit es"
  shows "rangeMatchHere (''bytes='' @ ds @ ''-'' @ es) = Some (ds, es)"
proof -
  have d: "\<And>x. x \<in> set ds \<Longrightarrow> isDigit x" using assms(1) by (simp add: list_all_iff)
  have e: "\<And>x. x \<in> set es \<Longrightarrow> isDigit x" using assms(3) by (simp add: list_all_iff)
  have t1: "takeWhile isDigit (ds @ CHR ''-'' # es) = ds"
    using d isDigit_dash by (simp add: takeWhile_append2)
  have t2: "dropWhile isDigit (ds @ CHR ''-'' # es) = CHR ''-'' # es"
    using d isDigit_dash by (simp add: dropWhile_append2)
  have t3: "takeWhile isDigit es = es" using e by (simp add: takeWhile_eq_all_conv)
  show ?thesis
    using t1 t2 t3 assms(2) by (simp add: rangeMatchHere_def Let_def)
qed

lemma rangeMatch_bytes:
  assumes "list_all isDigit ds" and "ds \<noteq> []" and "list_all isDigit es"
  shows "rangeMatch (''bytes='' @ ds @ ''-'' @ es) = Some (ds, es)"
proof -
  obtain c cs where h: "''bytes='' @ ds @ ''-'' @ es = c # cs" by simp
  show ?thesis using rangeMatchHere_bytes[OF assms] unfolding h by simp
qed

lemma handleCachedFile_range:
  assumes "rangeMatch h = Some (ds, es)" and "h \<noteq> []"
  shows "handleCachedFile m req file ext False (Some h) etag =
     (let size = int (length file);
          start = parseInt ds;
          end = (if es \<noteq> [] then parseInt es else size - 1)
      in if start < 0 \<or> start \<ge> size \<or> end \<ge> size \<or> start > end
         then createErrorResponse 416 ''Range not satisfiable''
         else addCorsHeaders
               \<lparr>status = 206,
                headers = [(''Content-Type'', getContentType m ext),
                           (''Content-Length'', toString (end - start + 1)),
                           (''Content-Range'',
                             ''bytes '' @ toString start @ ''-'' @ toString end @ ''/'' @ toString size),
                           (''Accept-Ranges'', ''bytes''), (''ETag'', etag)] @ getCacheControlHeaders,
                body = Blob (slice file start (end + 1))\<rparr>)"
  using assms by (simp add: handleCachedFile_def truthy_def Let_def)

lemma handleCachedFile_nomatch:
  assumes "rangeMatch h = None" and "h \<noteq> []"
  shows "handleCachedFile m req file ext False (Some h) etag
         = addCorsHeaders (fullFileResponse file (getContentType m ext) etag)"
  using assms by (simp add: handleCachedFile_def truthy_def Let_def)

lemma handleCachedFile_plain:
  assumes "\<not> checkIfNoneMatch req etag"
  shows "handleCachedFile m req file ext False None etag
         = addCorsHeaders (fullFileResponse file (getContentType m ext) etag)"
  using assms by (simp add: handleCachedFile_def truthy_def Let_def)

lemma handleBlobRequest_cached:
  assumes "truthy (req_headers req ''Range'') \<or> \<not> checkIfNoneMatch req (generateETag (sha256 parsed))"
  shows "handleBlobRequest m req parsed (Some file) fr
         = Inr (handleCachedFile m req file (extension parsed) (req_method req = ''HEAD'')
                  (req_headers req ''Range'') (generateETag (sha256 parsed)), fr)"
  using assms by (auto simp add: handleBlobRequest_def Let_def)

lemma addCorsHeaders_fields:
  "status (addCorsHeaders r) = status r"
  "body (addCorsHeaders r) = body r"
  "headers (addCorsHeaders r) = headers_set (headers r) ''Access-Control-Allow-Origin'' ''*''"
  by (simp_all add: addCorsHeaders_def)

lemma fullFileResponse_fields:
  "status (fullFileResponse file ct etag) = 200"
  "body (fullFileResponse file ct etag) = Blob file"
  "headers (fullFileResponse file ct etag) =
     [(''Content-Type'', ct), (''Content-Length'', toString (int (length file))),
      (''Accept-Ranges'', ''bytes''), (''ETag'', etag),
      (''Cache-Control'', ''public, max-age=31536000, immutable'')]"
  by (simp_all add: fullFileResponse_def getCacheControlHeaders_def Let_def)

text \<open>
  Claim C8. A GET for a cached blob of \<open>N\<close> bytes carries \<^verbatim>\<open>Range: bytes=a-b\<close> or
  \<^verbatim>\<open>Range: bytes=a-\<close>: \<open>ds\<close> and \<open>es\<close> are the digits of \<open>a\<close> and of \<open>b\<close>, and \<open>b\<close> is
  \<open>N - 1\<close> when \<open>es\<close> is empty. If \<open>0 \<le> a \<le> b < N\<close> the response is 206, its body is the
  body of the full 200 response (the response to \<open>plainReq\<close>, the same request without
  \<^verbatim>\<open>Range\<close>) cut to the bytes from \<open>a\<close> up to and excluding \<open>b + 1\<close>, \<^verbatim>\<open>Content-Range\<close> is
  \<^verbatim>\<open>bytes a-b/N\<close> and \<^verbatim>\<open>Content-Length\<close> is \<open>b - a + 1\<close>. Otherwise (\<open>a \<ge> N\<close>, \<open>b \<ge> N\<close> or
  \<open>a > b\<close>) the response is 416.
\<close>

theorem C8_range_on_cached_blob:
  assumes get: "req_method req \<noteq> ''HEAD''"
    and hdr: "req_headers req ''Range'' = Some (''bytes='' @ ds @ ''-'' @ es)"
    and digits: "list_all isDigit ds" "ds \<noteq> []" "list_all isDigit es"
    and a: "a = parseInt ds"
    and b: "b = (if es = [] then N - 1 else parseInt es)"
    and N: "N = int (length file)"
    and plain: "req_headers plainReq ''Range'' = None" "req_headers plainReq ''If-None-Match'' = None"
               "req_method plainReq \<noteq> ''HEAD''"
  shows "\<exists>r full.
           handleBlobRequest mime_getType req parsed (Some file) fetchResult = Inr (r, fetchResult)
         \<and> handleBlobRequest mime_getType plainReq parsed (Some file) fetchResult = Inr (full, fetchResult)
         \<and> status full = 200 \<and> body full = Blob file
         \<and> (if 0 \<le> a \<and> a \<le> b \<and> b < N
            then status r = 206
               \<and> body r = Blob (take (nat (b + 1 - a)) (drop (nat a) file))
               \<and> headers_get (headers r) ''Content-Range''
                    = Some (''bytes '' @ toString a @ ''-'' @ toString b @ ''/'' @ toString N)
               \<and> headers_get (headers r) ''Content-Length'' = Some (toString (b - a + 1))
            else status r = 416)"
proof -
  let ?h = "''bytes='' @ ds @ ''-'' @ es"
  let ?etag = "generateETag (sha256 parsed)"
  have m: "rangeMatch ?h = Some (ds, es)" using rangeMatch_bytes[OF digits] .
  have ne: "?h \<noteq> []" by simp
  have t: "truthy (req_headers req ''Range'')" using hdr by (simp add: truthy_def)
  have r: "handleBlobRequest mime_getType req parsed (Some file) fetchResult
           = Inr (handleCachedFile mime_getType req file (extension parsed) False (Some ?h) ?etag, fetchResult)"
    using t get hdr by (simp add: handleBlobRequest_cached)
  have nim: "\<not> checkIfNoneMatch plainReq ?etag" using plain(2) by (simp add: checkIfNoneMatch_def)
  have f: "handleBlobRequest mime_getType plainReq parsed (Some file) fetchResult
           = Inr (addCorsHeaders (fullFileResponse file (getContentType mime_getType (extension parsed)) ?etag),
                  fetchResult)"
    using nim plain handleCachedFile_plain[OF nim] by (simp add: handleBlobRequest_cached)
  have a0: "0 \<le> a" using a by (simp add: parseInt_def)
  show ?thesis
    unfolding r f handleCachedFile_range[OF m ne]
    using a b N a0
    by (auto simp: Let_def fullFileResponse_fields createErrorResponse_def addCorsHeaders_fields
        headers_get_def getCacheControlHeaders_def slice_def)
qed

theorem C8_range_on_cached_blob_witness:
  "\<exists>r full.
     handleBlobRequest (\<lambda>e. None) (exampleRequest [(''Range'', ''bytes=1-3'')]) exampleParsed
       (Some helloFile) noFetchResult = Inr (r, noFetchResult)
   \<and> handleBlobRequest (\<lambda>e. None) (exampleRequest []) exampleParsed
       (Some helloFile) noFetchResult = Inr (full, noFetchResult)
   \<and> status full = 200 \<and> body full = Blob helloFile
   \<and> status r = 206 \<and> body r = Blob [101, 108, 108]
   \<and> headers_get (headers r) ''Content-Range'' = Some ''bytes 1-3/6''
   \<and> headers_get (headers r) ''Content-Length'' = Some ''3''"
proof -
  let ?req = "exampleRequest [(''Range'', ''bytes=1-3'')]"
  let ?plain = "exampleRequest []"
  have get: "req_method ?req \<noteq> ''HEAD''" by (simp add: exampleRequest_def)
  have hdr: "req_headers ?req ''Range'' = Some (''bytes='' @ ''1'' @ ''-'' @ ''3'')"
    by (simp add: exampleRequest_def)
  have d1: "list_all isDigit ''1''" by (simp add: isDigit_def)
  have d2: "''1'' \<noteq> []" by simp
  have d3: "list_all isDigit ''3''" by (simp add: isDigit_def)
  have a: "(1 :: int) = parseInt ''1''" by (simp add: parseInt_small)
  have b: "(3 :: int) = (if ''3'' = [] then 6 - 1 else parseInt ''3'')" by (simp add: parseInt_small)
  have N: "(6 :: int) = int (length helloFile)" by (simp add: helloFile_def)
  have p1: "req_headers ?plain ''Range'' = None" by (simp add: exampleRequest_def)
  have p2: "req_headers ?plain ''If-None-Match'' = None" by (simp add: exampleRequest_def)
  have p3: "req_method ?plain \<noteq> ''HEAD''" by (simp add: exampleRequest_def)
  show ?thesis
    using C8_range_on_cached_blob[OF get hdr d1 d2 d3 a b N p1 p2 p3,
        of "\<lambda>e. None" exampleParsed noFetchResult]
    by (simp add: toString_small helloFile_def)
qed

text \<open>
  An empty \<^verbatim>\<open>Range\<close> header is a header that is present and that the pattern does not
  match, but \<^verbatim>\<open>!rangeHeader\<close> holds for it: with a matching \<^verbatim>\<open>If-None-Match\<close> the
  response to a GET for a cached blob is 304, not 200.
\<close>

theorem C10_empty_range_counterexample:
  "req_headers (exampleRequest [(''Range'', []), (''If-None-Match'', generateETag exampleDigest)]) ''Range''
     = Some []
   \<and> rangeMatch [] = None
   \<and> handleBlobRequest (\<lambda>e. None)
        (exampleRequest [(''Range'', []), (''If-None-Match'', generateETag exampleDigest)])
        exampleParsed (Some helloFile) noFetchResult
      = Inr (createNotModifiedResponse (generateETag exampleDigest), noFetchResult)
   \<and> status (createNotModifiedResponse (generateETag exampleDigest)) = 304"
proof -
  let ?req = "exampleRequest [(''Range'', []), (''If-None-Match'', generateETag exampleDigest)]"
  have inm: "req_headers ?req ''If-None-Match'' = Some ([] @ generateETag exampleDigest @ [])"
    by (simp add: exampleRequest_def)
  have c: "CHR '','' \<notin> set (generateETag exampleDigest)"
    using comma_notin_exampleDigest by (simp add: generateETag_def)
  have t: "trim (generateETag exampleDigest) = generateETag exampleDigest
           \<or> trim (generateETag exampleDigest) = ''W/'' @ generateETag exampleDigest"
    by (simp add: trim_def isWhiteSpace_def generateETag_def)
  have "checkIfNoneMatch ?req (generateETag exampleDigest)"
    using checkIfNoneMatch_listed[OF inm c _ _ t] by simp
  then show ?thesis
    by (simp add: handleBlobRequest_def exampleRequest_def exampleParsed_def truthy_def Let_def
        createNotModifiedResponse_def addCorsHeaders_def)
qed

text \<open>
  Claim C10, amended. A GET for a cached blob whose \<^verbatim>\<open>Range\<close> header has a non-empty value
  that the pattern \<^verbatim>\<open>bytes=<digits>-<optional digits>\<close> matches nowhere (a suffix range such
  as \<^verbatim>\<open>bytes=-5\<close>, or a malformed value) is answered with 200, the complete file as body,
  \<^verbatim>\<open>Content-Length\<close> equal to the size of the file and the headers of a successful response,
  whatever \<^verbatim>\<open>If-None-Match\<close> says.
\<close>

theorem C10_unmatched_range_gives_full_file:
  assumes get: "req_method req \<noteq> ''HEAD''"
    and hdr: "req_headers req ''Range'' = Some h" "h \<noteq> []"
    and nomatch: "rangeMatch h = None"
  shows "\<exists>r. handleBlobRequest mime_getType req parsed (Some file) fetchResult = Inr (r, fetchResult)
         \<and> status r = 200 \<and> body r = Blob file
         \<and> headers r =
             [(''Content-Type'', getContentType mime_getType (extension parsed)),
              (''Content-Length'', toString (int (length file))),
              (''Accept-Ranges'', ''bytes''), (''ETag'', generateETag (sha256 parsed)),
              (''Cache-Control'', ''public, max-age=31536000, immutable''),
              (''Access-Control-Allow-Origin'', ''*'')]"
proof -
  have t: "truthy (req_headers req ''Range'')" using hdr by (simp add: truthy_def)
  show ?thesis
    using t get hdr handleCachedFile_nomatch[OF nomatch hdr(2)]
    by (simp add: fullFileResponse_fields addCorsHeaders_fields handleBlobRequest_cached)
qed

lemma rangeMatch_suffix_range: "rangeMatch ''bytes=-5'' = None"
  by (simp add: rangeMatchHere_def isDigit_def)

theorem C10_unmatched_range_gives_full_file_witness:
  "\<exists>r. handleBlobRequest (\<lambda>e. None)
          (exampleRequest [(''Range'', ''bytes=-5''), (''If-None-Match'', generateETag exampleDigest)])
          exampleParsed (Some helloFile) noFetchResult = Inr (r, noFetchResult)
       \<and> status r = 200 \<and> body r = Blob helloFile
       \<and> headers_get (headers r) ''Content-Length'' = Some ''6''"
proof -
  let ?req = "exampleRequest [(''Range'', ''bytes=-5''), (''If-None-Match'', generateETag exampleDigest)]"
  have get: "req_method ?req \<noteq> ''HEAD''" by (simp add: exampleRequest_def)
  have hdr: "req_headers ?req ''Range'' = Some ''bytes=-5''" by (simp add: exampleRequest_def)
  have ne: "''bytes=-5'' \<noteq> []" by simp
  have len: "toString (int (length helloFile)) = ''6''"
    by (simp add: helloFile_def toString_small)
  show ?thesis
    using C10_unmatched_range_gives_full_file[OF get hdr ne rangeMatch_suffix_range,
        of "\<lambda>e. None" exampleParsed helloFile noFetchResult]
    by (auto simp: headers_get_def len)
qed

subsection \<open>The upstream fetcher\<close>




lemma fetchLoop_Cons:
  "fetchLoop follow net server sha ext rangeHeader rc (u # urls) =
     (let call = \<lparr>atCount = rc, serverArg = server,
                   requests = snd (fetch net (blobUrl u sha ext) (requestRange rangeHeader)),
                   result = fst (fetch net (blobUrl u sha ext) (requestRange rangeHeader))\<rparr>
      in case fst (fetch net (blobUrl u sha ext) (requestRange rangeHeader)) of
        Threw isAbort \<Rightarrow>
          map_option (\<lambda>(r, t). (r, call # t)) (fetchLoop follow net server sha ext rangeHeader rc urls)
      | Responded resp \<Rightarrow>
          if followsRedirect resp sha
          then map_option (\<lambda>(r, t). (r, call # t)) (follow (the (headers_get (headers resp) ''Location'')))
          else if response_ok resp then Some (Some resp, [call])
          else if status resp = 404 then
            map_option (\<lambda>(r, t). (r, call # t)) (fetchLoop follow net server sha ext rangeHeader rc urls)
          else Some (None, [call]))"
  by (simp add: Let_def case_prod_beta followsRedirect_def response_ok_def split: fetch_outcome.splits)











text \<open>
  The redirect handling of \<^verbatim>\<open>fetchFromServer\<close> itself, on the responses that \<^verbatim>\<open>fetch\<close>
  hands over: it makes no call of \<^verbatim>\<open>fetch\<close> at a redirect count beyond the limit, and a
  call at a higher count than that of the outer call goes to a \<^verbatim>\<open>Location\<close> that contains
  the digest.
\<close>

lemma ownRedirectsChecked_weaken:
  "str_includes loc sha \<Longrightarrow> ownRedirectsChecked mr sha (rc + 1) loc t
     \<Longrightarrow> ownRedirectsChecked mr sha rc server t"
  unfolding ownRedirectsChecked_def list_all_iff by (auto split: if_splits)

lemma fetchLoop_own:
  assumes "\<not> exceeds rc mr"
    and "\<And>loc res calls. str_includes loc sha \<Longrightarrow> follow loc = Some (res, calls)
           \<Longrightarrow> ownRedirectsChecked mr sha (rc + 1) loc calls"
  shows "fetchLoop follow net server sha ext rangeHeader rc urls = Some (res, calls)
         \<Longrightarrow> ownRedirectsChecked mr sha rc server calls"
proof (induction urls arbitrary: res calls)
  case Nil
  then show ?case by (simp add: ownRedirectsChecked_def)
next
  case (Cons u urls)
  let ?o = "fst (fetch net (blobUrl u sha ext) (requestRange rangeHeader))"
  let ?call = "\<lparr>atCount = rc, serverArg = server,
                   requests = snd (fetch net (blobUrl u sha ext) (requestRange rangeHeader)),
                   result = ?o\<rparr>"
  have cont: "\<And>x. map_option (\<lambda>(r, t). (r, ?call # t)) x = Some (res, calls) \<Longrightarrow>
                (\<And>r t. x = Some (r, t) \<Longrightarrow> ownRedirectsChecked mr sha rc server t) \<Longrightarrow>
                ownRedirectsChecked mr sha rc server calls"
  proof -
    fix x
    assume m: "map_option (\<lambda>(r, t). (r, ?call # t)) x = Some (res, calls)"
      and h: "\<And>r t. x = Some (r, t) \<Longrightarrow> ownRedirectsChecked mr sha rc server t"
    from m obtain r t where x: "x = Some (r, t)" and e: "calls = ?call # t" by auto
    have "ownRedirectsChecked mr sha rc server t" using h x by simp
    then show "ownRedirectsChecked mr sha rc server calls"
      using assms(1) e by (simp add: ownRedirectsChecked_def)
  qed
  show ?case
  proof (cases ?o)
    case (Threw b)
    have m: "map_option (\<lambda>(r, t). (r, ?call # t)) (fetchLoop follow net server sha ext rangeHeader rc urls)
             = Some (res, calls)"
      using Cons.prems(1) Threw by (simp add: fetchLoop_Cons Let_def del: fetchLoop.simps(2))
    show ?thesis by (rule cont[OF m]) (rule Cons.IH)
  next
    case (Responded resp)
    show ?thesis
    proof (cases "followsRedirect resp sha")
      case True
      have inc: "str_includes (the (headers_get (headers resp) ''Location'')) sha"
        using True by (simp add: followsRedirect_def)
      have m: "map_option (\<lambda>(r, t). (r, ?call # t)) (follow (the (headers_get (headers resp) ''Location'')))
             = Some (res, calls)"
        using Cons.prems(1) Responded True by (simp add: fetchLoop_Cons Let_def del: fetchLoop.simps(2))
      show ?thesis
        by (rule cont[OF m]) (rule ownRedirectsChecked_weaken[OF inc], rule assms(2)[OF inc])
    next
      case False
      show ?thesis
      proof (cases "\<not> response_ok resp \<and> status resp = 404")
        case True
        have m: "map_option (\<lambda>(r, t). (r, ?call # t)) (fetchLoop follow net server sha ext rangeHeader rc urls)
             = Some (res, calls)"
          using Cons.prems(1) Responded False True
          by (simp add: fetchLoop_Cons Let_def del: fetchLoop.simps(2))
        show ?thesis by (rule cont[OF m]) (rule Cons.IH)
      next
        case other: False
        have "calls = [?call]"
          using Cons.prems(1) Responded False other
          by (auto simp add: fetchLoop_Cons Let_def simp del: fetchLoop.simps(2) split: if_splits)
        then show ?thesis using assms(1) by (simp add: ownRedirectsChecked_def)
      qed
    qed
  qed
qed

lemma fetchFromServer_own_redirects:
  "fetchFromServer depth mr net server sha ext rangeHeader rc = Some (res, calls)
   \<Longrightarrow> ownRedirectsChecked mr sha rc server calls"
proof (induction depth arbitrary: server rc res calls)
  case 0
  then show ?case by simp
next
  case (Suc depth)
  show ?case
  proof (cases "exceeds rc mr")
    case True
    then show ?thesis using Suc.prems by (auto simp: ownRedirectsChecked_def)
  next
    case False
    have "fetchLoop (\<lambda>location. fetchFromServer depth mr net location sha ext rangeHeader (rc + 1))
            net server sha ext rangeHeader rc (normalizeServerUrl server) = Some (res, calls)"
      using Suc.prems False by simp
    then show ?thesis
      by (rule fetchLoop_own[OF False, rotated]) (rule Suc.IH)
  qed
qed

text \<open>
  Claim C4 fails on the code. \<^verbatim>\<open>fetch\<close> is called in its default redirect mode, so the
  runtime follows a redirect before \<^verbatim>\<open>fetchFromServer\<close> sees it, and the comparison of the
  \<^verbatim>\<open>Location\<close> with the digest and of the redirect count with \<^verbatim>\<open>MAX_REDIRECTS\<close> is never
  applied to it. With \<^verbatim>\<open>MAX_REDIRECTS\<close> at its default of 5 and a single call of
  \<^verbatim>\<open>fetchFromServer\<close>: when the server redirects to a URL that does not contain the digest,
  that URL is requested and its response is returned; and through a chain of seven
  redirects all eight requests are made, within the one call of \<^verbatim>\<open>fetch\<close> at redirect
  count 0, and the response at the end of the chain is returned.
\<close>

theorem C4_runtime_follows_redirects:
  "fetchFromServer 1 (Number 5) redirectingNet exampleServer exampleDigest None None 0
     = Some (Some \<lparr>status = 200, headers = [], body = Blob [1, 2, 3]\<rparr>,
             [\<lparr>atCount = 0, serverArg = exampleServer,
               requests = [blobUrl exampleServer exampleDigest None, ''https://evil.example.com/other''],
               result = Responded \<lparr>status = 200, headers = [], body = Blob [1, 2, 3]\<rparr>\<rparr>])
   \<and> \<not> str_includes ''https://evil.example.com/other'' exampleDigest
   \<and> map_option (map (length \<circ> requests) \<circ> snd)
         (fetchFromServer 1 (Number 5) chainNet exampleServer exampleDigest None None 0) = Some [8]
   \<and> map_option fst (fetchFromServer 1 (Number 5) chainNet exampleServer exampleDigest None None 0)
       = Some (Some \<lparr>status = 200, headers = [], body = Blob [1, 2, 3]\<rparr>)"
  by code_simp

subsection \<open>The hash and cache stream\<close>






lemma foldl_cacheStreamWrite:
  "files st sha = Some content \<Longrightarrow>
   foldl (cacheStreamWrite sha) st cs = st\<lparr>files := (files st)(sha \<mapsto> content @ concat cs)\<rparr>"
proof (induction cs arbitrary: st content)
  case Nil
  then show ?case by (simp add: fun_upd_idem)
next
  case (Cons c cs)
  let ?st1 = "st\<lparr>files := (files st)(sha \<mapsto> content @ c)\<rparr>"
  have step: "cacheStreamWrite sha st c = ?st1"
    using Cons.prems by (simp add: cacheStreamWrite_def)
  have f1: "files ?st1 sha = Some (content @ c)" by simp
  have "foldl (cacheStreamWrite sha) st (c # cs) = foldl (cacheStreamWrite sha) ?st1 cs"
    using step by simp
  also have "\<dots> = ?st1\<lparr>files := (files ?st1)(sha \<mapsto> (content @ c) @ concat cs)\<rparr>"
    by (rule Cons.IH[OF f1])
  also have "\<dots> = st\<lparr>files := (files st)(sha \<mapsto> content @ concat (c # cs))\<rparr>"
    by simp
  finally show ?case .
qed

lemma written_state:
  "foldl (cacheStreamWrite sha) (cacheStreamStart st sha) cs = st\<lparr>files := (files st)(sha \<mapsto> concat cs)\<rparr>"
  using foldl_cacheStreamWrite[of "cacheStreamStart st sha" sha "[]" cs]
  by (simp add: cacheStreamStart_def)

lemma find_append_None: "find P xs = None \<Longrightarrow> find P (xs @ ys) = find P ys"
  by (induction xs) (auto split: if_splits)

lemma find_filter_neg:
  "find (\<lambda>r. sha256_col r = k) (filter (\<lambda>r. sha256_col r \<noteq> k) tbl) = None"
  by (induction tbl) auto

lemma db_select_insert: "db_select (db_insert_or_replace tbl row) (sha256_col row) = Some row"
  by (simp add: db_select_def db_insert_or_replace_def db_delete_def find_append_None[OF find_filter_neg])

lemma step_chunk:
  "pipelineStep h m d n sha p (UpstreamChunk c) =
     (if source p = Flowing
      then p\<lparr>hasher := hasher p @ c, responseChunks := responseChunks p @ [c],
             cache := (if sink p = Writing then cacheStreamWrite sha (cache p) c else cache p)\<rparr>
      else p)"
  by (simp add: pipelineStep_def hashTransform_def)

lemma step_end:
  "pipelineStep h m d n sha p UpstreamEnd =
     (if source p = Flowing then
        (if sink p = Writing
         then p\<lparr>source := Ended, sink := Closed, cacheWritten := True,
                settledLog := settledLog p @ [CacheWriteSettled],
                cache := cacheStreamClose m d n (cache p) sha\<rparr>
         else p\<lparr>source := Ended\<rparr>)
      else p)"
  by (simp add: pipelineStep_def)



lemma step_validation:
  "pipelineStep h m d n sha p ValidationTurn =
     (if cacheWritten p \<and> hashValid p = None
      then p\<lparr>hashValid := Some (validateHash h sha (hasher p)),
             settledLog := settledLog p @ [HashValidationSettled (validateHash h sha (hasher p))]\<rparr>
      else p)"
  by (simp add: pipelineStep_def Let_def)


lemma run_Nil: "runPipeline h m d n sha p [] = p"
  by (simp add: runPipeline_def)

lemma run_Cons: "runPipeline h m d n sha p (e # es) = runPipeline h m d n sha (pipelineStep h m d n sha p e) es"
  by (simp add: runPipeline_def)

lemma run_append:
  "runPipeline h m d n sha p (es @ es') = runPipeline h m d n sha (runPipeline h m d n sha p es) es'"
  by (simp add: runPipeline_def)
















lemma run_chunks:
  "source p = Flowing \<Longrightarrow> sink p = Writing \<Longrightarrow>
   runPipeline h m d n sha p (map UpstreamChunk cs)
     = p\<lparr>hasher := hasher p @ concat cs, responseChunks := responseChunks p @ cs,
          cache := foldl (cacheStreamWrite sha) (cache p) cs\<rparr>"
proof (induction cs arbitrary: p)
  case Nil
  then show ?case by (simp add: run_Nil)
next
  case (Cons c cs)
  let ?p1 = "pipelineStep h m d n sha p (UpstreamChunk c)"
  have p1: "?p1 = p\<lparr>hasher := hasher p @ c, responseChunks := responseChunks p @ [c],
                     cache := cacheStreamWrite sha (cache p) c\<rparr>"
    using Cons.prems by (simp add: step_chunk)
  have s: "source ?p1 = Flowing" "sink ?p1 = Writing" using Cons.prems by (simp_all add: p1)
  show ?case
    using Cons.IH[OF s] by (simp add: run_Cons p1)
qed

lemma fetch_run:
  "runPipeline h m d n sha (createHashAndCacheStream False st sha)
     (map UpstreamChunk upstream @ [UpstreamEnd, ValidationTurn])
   = \<lparr>hasher = concat upstream, source = Ended, responseChunks = upstream, sink = Closed,
      cacheWritten = True, hashValid = Some (validateHash h sha (concat upstream)),
      settledLog = [CacheWriteSettled, HashValidationSettled (validateHash h sha (concat upstream))],
      cache = cacheStreamClose m d n (st\<lparr>files := (files st)(sha \<mapsto> concat upstream)\<rparr>) sha\<rparr>"
proof -
  let ?p0 = "createHashAndCacheStream False st sha"
  have s: "source ?p0 = Flowing" "sink ?p0 = Writing" by (simp_all add: createHashAndCacheStream_def)
  have c: "runPipeline h m d n sha ?p0 (map UpstreamChunk upstream)
           = ?p0\<lparr>hasher := hasher ?p0 @ concat upstream, responseChunks := responseChunks ?p0 @ upstream,
                 cache := foldl (cacheStreamWrite sha) (cache ?p0) upstream\<rparr>"
    by (rule run_chunks[OF s])
  have "runPipeline h m d n sha ?p0 (map UpstreamChunk upstream @ [UpstreamEnd, ValidationTurn])
        = runPipeline h m d n sha
            (?p0\<lparr>hasher := hasher ?p0 @ concat upstream, responseChunks := responseChunks ?p0 @ upstream,
                 cache := foldl (cacheStreamWrite sha) (cache ?p0) upstream\<rparr>)
            [UpstreamEnd, ValidationTurn]"
    by (simp only: run_append c)
  then show ?thesis
    by (simp add: run_Cons run_Nil step_end step_validation createHashAndCacheStream_def written_state)
qed

text \<open>
  Claim C1 fails on the code. A fetch whose bytes do not hash to the requested digest, with
  an upstream that ends normally and no size ceiling configured: the cache writer's
  \<^verbatim>\<open>close\<close> records the metadata row through \<^verbatim>\<open>updateAccessTime\<close> before the hash is
  validated, and the callback on an invalid hash deletes the file only. After the fetch
  the row for the digest is still in the table, with the size of the rejected bytes; the
  lookup is absent if the file could be deleted.
\<close>

theorem C1_poisoned_fetch_leaves_metadata_row:
  assumes "toLowerCase (sha256hex (concat upstream)) \<noteq> toLowerCase sha"
  shows "db_select (cache_metadata (fetchCompletes sha256hex None deleteFails now st sha upstream EndOfStream)) sha
         = Some \<lparr>sha256_col = sha, last_accessed = now, size_col = length (concat upstream),
                 uploaded = (case db_select (cache_metadata st) sha of None \<Rightarrow> None | Some e \<Rightarrow> uploaded e)\<rparr>
       \<and> fst (checkCache now' (fetchCompletes sha256hex None deleteFails now st sha upstream EndOfStream) sha)
         = (if deleteFails sha then Some (concat upstream) else None)"
proof -
  let ?row = "\<lparr>sha256_col = sha, last_accessed = now, size_col = length (concat upstream),
                 uploaded = (case db_select (cache_metadata st) sha of None \<Rightarrow> None | Some e \<Rightarrow> uploaded e)\<rparr>"
  let ?w = "st\<lparr>files := (files st)(sha \<mapsto> concat upstream)\<rparr>"
  have close: "cacheStreamClose None deleteFails now ?w sha
               = ?w\<lparr>cache_metadata := db_insert_or_replace (cache_metadata st) ?row\<rparr>"
    by (simp add: cacheStreamClose_def pruneCacheIfNeeded_def updateAccessTime_def Let_def)
  have inv: "\<not> validateHash sha256hex sha (concat upstream)"
    using assms by (simp add: validateHash_def getFinalHash_def)
  have r: "fetchCompletes sha256hex None deleteFails now st sha upstream EndOfStream
           = deleteInvalidCache deleteFails
               (?w\<lparr>cache_metadata := db_insert_or_replace (cache_metadata st) ?row\<rparr>) sha False"
    using inv by (simp add: fetchCompletes_def fetch_run close Let_def)
  show ?thesis
    using db_select_insert[of "cache_metadata st" ?row]
    by (simp add: r deleteInvalidCache_def file_delete_def checkCache_def Let_def)
qed

theorem C1_poisoned_fetch_leaves_metadata_row_witness:
  "db_select
     (cache_metadata
        (fetchCompletes (\<lambda>bs. replicate 64 CHR ''0'') None (\<lambda>d. False) 1000
           \<lparr>files = Map.empty, cache_metadata = []\<rparr> exampleDigest [[1, 2], [3]] EndOfStream))
     exampleDigest
   = Some \<lparr>sha256_col = exampleDigest, last_accessed = 1000, size_col = 3, uploaded = None\<rparr>
   \<and> fst (checkCache 2000
        (fetchCompletes (\<lambda>bs. replicate 64 CHR ''0'') None (\<lambda>d. False) 1000
           \<lparr>files = Map.empty, cache_metadata = []\<rparr> exampleDigest [[1, 2], [3]] EndOfStream)
        exampleDigest) = None"
proof -
  have ne: "toLowerCase (replicate 64 CHR ''0'') \<noteq> toLowerCase exampleDigest"
    by code_simp
  show ?thesis
    using C1_poisoned_fetch_leaves_metadata_row[where sha256hex="\<lambda>bs. replicate 64 CHR ''0''"
        and upstream="[[1, 2], [3]]" and sha=exampleDigest and deleteFails="\<lambda>d. False" and now=1000
        and st="\<lparr>files = Map.empty, cache_metadata = []\<rparr>" and now'=2000] ne
    by (simp add: db_select_def)
qed

subsection \<open>The in-flight map\<close>

lemma queueInv_empty: "queueInv emptyQueue"
  by (simp add: queueInv_def emptyQueue_def)

lemma calls_length: "queueInv q \<Longrightarrow> length (fetchCalls q) = length (promises q)"
  unfolding queueInv_def by (metis length_map length_upt minus_nat.diff_0)

lemma calls_snd: "queueInv q \<Longrightarrow> p < length (promises q) \<Longrightarrow> snd (fetchCalls q ! p) = p"
proof -
  assume a: "queueInv q" "p < length (promises q)"
  then have "map snd (fetchCalls q) ! p = [0..<length (promises q)] ! p"
    by (simp add: queueInv_def)
  then show ?thesis using a calls_length[OF a(1)] by simp
qed

lemma find_none: "(\<And>x. x \<in> set xs \<Longrightarrow> \<not> P x) \<Longrightarrow> find P xs = None"
  by (induction xs) auto

lemma find_call:
  assumes "queueInv q"
  shows "find (\<lambda>c. snd c = p) (fetchCalls q)
         = (if p < length (promises q) then Some (fetchCalls q ! p) else None)"
proof (cases "p < length (promises q)")
  case True
  have "\<exists>i<length (fetchCalls q). snd (fetchCalls q ! i) = p \<and> fetchCalls q ! p = fetchCalls q ! i
          \<and> (\<forall>j<i. \<not> snd (fetchCalls q ! j) = p)"
    using True calls_length[OF assms] calls_snd[OF assms]
    by (intro exI[of _ p]) auto
  then show ?thesis using True by (simp add: find_Some_iff)
next
  case False
  have "\<And>c. c \<in> set (fetchCalls q) \<Longrightarrow> snd c \<noteq> p"
  proof -
    fix c assume "c \<in> set (fetchCalls q)"
    then have "snd c \<in> set (map snd (fetchCalls q))" by simp
    moreover have "set (map snd (fetchCalls q)) = {0..<length (promises q)}"
      using assms unfolding queueInv_def by (metis atLeastLessThan_upt)
    ultimately have "snd c < length (promises q)" by simp
    then show "snd c \<noteq> p" using False by auto
  qed
  then have "find (\<lambda>c. snd c = p) (fetchCalls q) = None" by (rule find_none)
  then show ?thesis using False by simp
qed

lemma queueInv_call:
  assumes "queueInv q"
  shows "queueInv (snd (getOrCreateFetch q sha ReturnsPromise))"
proof (cases "inFlightFetches q sha")
  case (Some p)
  then show ?thesis using assms by (simp add: getOrCreateFetch_def)
next
  case None
  let ?n = "length (promises q)"
  let ?q' = "q\<lparr>inFlightFetches := (inFlightFetches q)(sha \<mapsto> ?n),
              promises := promises q @ [Pending],
              fetchCalls := fetchCalls q @ [(sha, ?n)]\<rparr>"
  have q': "snd (getOrCreateFetch q sha ReturnsPromise) = ?q'"
    using None by (simp add: getOrCreateFetch_def Let_def)
  have len: "length (fetchCalls q) = ?n" using calls_length[OF assms] .
  have i1: "map snd (fetchCalls ?q') = [0..<length (promises ?q')]"
    using assms by (simp add: queueInv_def)
  have i2: "\<forall>s p. inFlightFetches ?q' s = Some p \<longrightarrow>
            p < length (promises ?q') \<and> promises ?q' ! p = Pending \<and> fetchCalls ?q' ! p = (s, p)"
  proof (intro allI impI)
    fix s p assume h: "inFlightFetches ?q' s = Some p"
    show "p < length (promises ?q') \<and> promises ?q' ! p = Pending \<and> fetchCalls ?q' ! p = (s, p)"
    proof (cases "s = sha")
      case True
      then have "p = ?n" using h by simp
      then show ?thesis using True len by (simp add: nth_append)
    next
      case False
      then have "inFlightFetches q s = Some p" using h by simp
      then have "p < ?n \<and> promises q ! p = Pending \<and> fetchCalls q ! p = (s, p)"
        using assms by (simp add: queueInv_def)
      then show ?thesis using len by (simp add: nth_append)
    qed
  qed
  have i3: "\<forall>p < length (promises ?q'). promises ?q' ! p = Pending \<longrightarrow>
            inFlightFetches ?q' (fst (fetchCalls ?q' ! p)) = Some p"
  proof (intro allI impI)
    fix p assume h: "p < length (promises ?q')" "promises ?q' ! p = Pending"
    show "inFlightFetches ?q' (fst (fetchCalls ?q' ! p)) = Some p"
    proof (cases "p = ?n")
      case True
      then show ?thesis using len by (simp add: nth_append)
    next
      case False
      then have lt: "p < ?n" using h(1) by simp
      then have "promises q ! p = Pending" using h(2) by (simp add: nth_append)
      then have e: "inFlightFetches q (fst (fetchCalls q ! p)) = Some p"
        using assms lt by (simp add: queueInv_def)
      then have "fst (fetchCalls q ! p) \<noteq> sha" using None by auto
      then show ?thesis using e lt len by (simp add: nth_append)
    qed
  qed
  show ?thesis unfolding q' queueInv_def using i1 i2 i3 by blast
qed

lemma queueInv_finish:
  assumes "queueInv q"
  shows "queueInv (queueStep q (Finish p outcome))"
proof (cases "p < length (promises q) \<and> promises q ! p = Pending \<and> outcome \<noteq> Pending")
  case False
  then show ?thesis
    using assms by (auto simp: queueStep_def find_call[OF assms] split: prod.splits)
next
  case True
  obtain sha where c: "fetchCalls q ! p = (sha, p)"
    using calls_snd[OF assms, of p] True by (cases "fetchCalls q ! p") auto
  let ?q' = "fetchFinished q sha p outcome"
  have q': "queueStep q (Finish p outcome) = ?q'"
    using True c by (simp add: queueStep_def find_call[OF assms])
  have inp: "inFlightFetches q sha = Some p"
    using assms True c unfolding queueInv_def by (metis fst_conv)
  have i1: "map snd (fetchCalls ?q') = [0..<length (promises ?q')]"
    using assms by (simp add: queueInv_def fetchFinished_def)
  have i2: "\<forall>s p'. inFlightFetches ?q' s = Some p' \<longrightarrow>
            p' < length (promises ?q') \<and> promises ?q' ! p' = Pending \<and> fetchCalls ?q' ! p' = (s, p')"
  proof (intro allI impI)
    fix s p' assume h: "inFlightFetches ?q' s = Some p'"
    then have ne: "s \<noteq> sha" by (auto simp: fetchFinished_def split: if_splits)
    then have old: "inFlightFetches q s = Some p'" using h by (simp add: fetchFinished_def)
    then have o: "p' < length (promises q) \<and> promises q ! p' = Pending \<and> fetchCalls q ! p' = (s, p')"
      using assms by (simp add: queueInv_def)
    have "p' \<noteq> p" using o c ne by auto
    then show "p' < length (promises ?q') \<and> promises ?q' ! p' = Pending \<and> fetchCalls ?q' ! p' = (s, p')"
      using o by (simp add: fetchFinished_def)
  qed
  have i3: "\<forall>p' < length (promises ?q'). promises ?q' ! p' = Pending \<longrightarrow>
            inFlightFetches ?q' (fst (fetchCalls ?q' ! p')) = Some p'"
  proof (intro allI impI)
    fix p' assume h: "p' < length (promises ?q')" "promises ?q' ! p' = Pending"
    have lt: "p' < length (promises q)" using h(1) by (simp add: fetchFinished_def)
    have ne: "p' \<noteq> p" using h(2) True lt by (auto simp: fetchFinished_def)
    then have "promises q ! p' = Pending" using h(2) by (simp add: fetchFinished_def)
    then have e: "inFlightFetches q (fst (fetchCalls q ! p')) = Some p'"
      using assms lt by (simp add: queueInv_def)
    then have "fst (fetchCalls q ! p') \<noteq> sha" using inp ne by auto
    then show "inFlightFetches ?q' (fst (fetchCalls ?q' ! p')) = Some p'"
      using e by (simp add: fetchFinished_def)
  qed
  show ?thesis unfolding q' queueInv_def using i1 i2 i3 by blast
qed

lemma queueInv_step:
  assumes "queueInv q" and "handlerEvent e"
  shows "queueInv (queueStep q e)"
proof (cases e)
  case (Call sha fn)
  then have "fn = ReturnsPromise" using assms(2) by (simp add: handlerEvent_def)
  then show ?thesis using Call queueInv_call[OF assms(1), of sha] by (simp add: queueStep_def)
next
  case (Finish p outcome)
  then show ?thesis using queueInv_finish[OF assms(1)] by simp
qed

lemma queueInv_foldl: "queueInv q \<Longrightarrow> list_all handlerEvent es \<Longrightarrow> queueInv (foldl queueStep q es)"
  by (induction es arbitrary: q) (simp_all add: queueInv_step)

lemma queueInv_run: "list_all handlerEvent es \<Longrightarrow> queueInv (runQueue es)"
  by (simp add: runQueue_def queueInv_foldl queueInv_empty)


lemma settled_step:
  assumes "p < length (promises q)" and "promises q ! p = Fulfilled r"
  shows "p < length (promises (queueStep q e)) \<and> promises (queueStep q e) ! p = Fulfilled r"
proof (cases e)
  case (Call sha fn)
  then show ?thesis
    using assms
    by (auto simp: queueStep_def getOrCreateFetch_def Let_def nth_append split: option.splits fetchFn.splits)
next
  case (Finish p' outcome)
  show ?thesis
  proof (cases "p' = p")
    case True
    then have "promises q ! p' \<noteq> Pending" using assms(2) by simp
    then have "queueStep q e = q"
      using Finish by (simp add: queueStep_def split: option.splits prod.splits)
    then show ?thesis using assms by simp
  next
    case False
    then show ?thesis
      using Finish assms
      by (auto simp: queueStep_def fetchFinished_def split: option.splits prod.splits)
  qed
qed

lemma settled_foldl:
  assumes "p < length (promises q)" and "promises q ! p = Fulfilled r"
  shows "p < length (promises (foldl queueStep q es)) \<and> promises (foldl queueStep q es) ! p = Fulfilled r"
  using assms
proof (induction es arbitrary: q)
  case Nil
  then show ?case by simp
next
  case (Cons e es)
  then show ?case using settled_step[of p q r e] by simp
qed

text \<open>
  The map itself behaves as claim C9 says, in every state that the program reaches from
  the empty map by calls of \<^verbatim>\<open>getOrCreateFetch\<close> with the asynchronous \<^verbatim>\<open>fetchFn\<close> of the
  handler and by the settling of fetches: the map has an entry for a digest exactly when a
  fetch for that digest is pending, and the entry is the promise of that fetch, so no
  digest has two fetches in flight; \<^verbatim>\<open>getOrCreateFetch\<close> returns the promise of the entry
  and changes nothing when the digest has one, and otherwise starts one fetch and inserts
  one entry for one new pending promise; when the fetch ends the entry is removed, whether
  the fetch succeeded or failed; and a promise that has resolved keeps its result through
  all later events.
\<close>

lemma in_flight_map_invariant:
  fixes es :: "'r queue_event list"
  assumes "list_all handlerEvent es"
  shows
   "(\<forall>sha p. inFlightFetches (runQueue es) sha = Some p \<longleftrightarrow>
        (p < length (promises (runQueue es)) \<and> promises (runQueue es) ! p = Pending
         \<and> fetchCalls (runQueue es) ! p = (sha, p)))
    \<and> (\<forall>sha p p'. p < length (promises (runQueue es)) \<and> promises (runQueue es) ! p = Pending
          \<and> fetchCalls (runQueue es) ! p = (sha, p)
          \<and> p' < length (promises (runQueue es)) \<and> promises (runQueue es) ! p' = Pending
          \<and> fetchCalls (runQueue es) ! p' = (sha, p') \<longrightarrow> p = p')
    \<and> (\<forall>sha p fn. inFlightFetches (runQueue es) sha = Some p \<longrightarrow>
          getOrCreateFetch (runQueue es) sha fn = (p, runQueue es))
    \<and> (\<forall>sha. inFlightFetches (runQueue es) sha = None \<longrightarrow>
          getOrCreateFetch (runQueue es) sha ReturnsPromise
            = (length (promises (runQueue es)),
               (runQueue es)\<lparr>inFlightFetches := (inFlightFetches (runQueue es))(sha \<mapsto> length (promises (runQueue es))),
                              promises := promises (runQueue es) @ [Pending],
                              fetchCalls := fetchCalls (runQueue es) @ [(sha, length (promises (runQueue es)))]\<rparr>))
    \<and> (\<forall>sha p outcome. inFlightFetches (runQueue es) sha = Some p \<and> outcome \<noteq> Pending \<longrightarrow>
          inFlightFetches (queueStep (runQueue es) (Finish p outcome)) sha = None
          \<and> promises (queueStep (runQueue es) (Finish p outcome)) ! p = outcome)
    \<and> (\<forall>p r es'. p < length (promises (runQueue es)) \<and> promises (runQueue es) ! p = Fulfilled r \<longrightarrow>
          promises (runQueue (es @ es')) ! p = Fulfilled r)"
proof -
  let ?q = "runQueue es"
  have inv: "queueInv ?q" using assms by (rule queueInv_run)
  have a: "\<forall>sha p. inFlightFetches ?q sha = Some p \<longleftrightarrow>
        (p < length (promises ?q) \<and> promises ?q ! p = Pending \<and> fetchCalls ?q ! p = (sha, p))"
    using inv unfolding queueInv_def by (metis fst_conv)
  have u: "\<forall>sha p p'. p < length (promises ?q) \<and> promises ?q ! p = Pending
          \<and> fetchCalls ?q ! p = (sha, p)
          \<and> p' < length (promises ?q) \<and> promises ?q ! p' = Pending
          \<and> fetchCalls ?q ! p' = (sha, p') \<longrightarrow> p = p'"
  proof (intro allI impI)
    fix sha p p'
    assume h: "p < length (promises ?q) \<and> promises ?q ! p = Pending
          \<and> fetchCalls ?q ! p = (sha, p)
          \<and> p' < length (promises ?q) \<and> promises ?q ! p' = Pending
          \<and> fetchCalls ?q ! p' = (sha, p')"
    have "inFlightFetches ?q sha = Some p" using a h by blast
    moreover have "inFlightFetches ?q sha = Some p'" using a h by blast
    ultimately show "p = p'" by simp
  qed
  have b: "\<forall>sha p fn. inFlightFetches ?q sha = Some p \<longrightarrow> getOrCreateFetch ?q sha fn = (p, ?q)"
    by (simp add: getOrCreateFetch_def)
  have c: "\<forall>sha. inFlightFetches ?q sha = None \<longrightarrow>
          getOrCreateFetch ?q sha ReturnsPromise
            = (length (promises ?q),
               ?q\<lparr>inFlightFetches := (inFlightFetches ?q)(sha \<mapsto> length (promises ?q)),
                   promises := promises ?q @ [Pending],
                   fetchCalls := fetchCalls ?q @ [(sha, length (promises ?q))]\<rparr>)"
    by (simp add: getOrCreateFetch_def Let_def)
  have d: "\<forall>sha p outcome. inFlightFetches ?q sha = Some p \<and> outcome \<noteq> Pending \<longrightarrow>
          inFlightFetches (queueStep ?q (Finish p outcome)) sha = None
          \<and> promises (queueStep ?q (Finish p outcome)) ! p = outcome"
  proof (intro allI impI)
    fix sha p and outcome :: "'r promise_state"
    assume h: "inFlightFetches ?q sha = Some p \<and> outcome \<noteq> Pending"
    then have f: "p < length (promises ?q) \<and> promises ?q ! p = Pending \<and> fetchCalls ?q ! p = (sha, p)"
      using a by blast
    then show "inFlightFetches (queueStep ?q (Finish p outcome)) sha = None
          \<and> promises (queueStep ?q (Finish p outcome)) ! p = outcome"
      using h by (simp add: queueStep_def find_call[OF inv] fetchFinished_def)
  qed
  have e: "\<forall>p r es'. p < length (promises ?q) \<and> promises ?q ! p = Fulfilled r \<longrightarrow>
          promises (runQueue (es @ es')) ! p = Fulfilled r"
  proof (intro allI impI)
    fix p and r :: 'r and es' :: "'r queue_event list"
    assume h: "p < length (promises ?q) \<and> promises ?q ! p = Fulfilled r"
    have "runQueue (es @ es') = foldl queueStep ?q es'" by (simp add: runQueue_def)
    then show "promises (runQueue (es @ es')) ! p = Fulfilled r"
      using settled_foldl[of p ?q r es'] h by simp
  qed
  show ?thesis
    apply (intro conjI)
         apply (rule a)
        apply (rule u)
       apply (rule b)
      apply (rule c)
     apply (rule d)
    apply (rule e)
    done
qed

text \<open>
  A \<^verbatim>\<open>fetchFn\<close> that throws before it returns a promise leaves an entry that nothing
  removes: the \<^verbatim>\<open>finally\<close> block has run before the entry is set. Later calls for the
  digest get the rejected promise. The handler never passes such a function.
\<close>

lemma throwing_fetchFn_leaves_entry:
  "inFlightFetches (runQueue [Call exampleDigest Throws] :: unit queue) exampleDigest = Some 0"
  "promises (runQueue [Call exampleDigest Throws] :: unit queue) ! 0 = Rejected"
  "queueStep (runQueue [Call exampleDigest Throws] :: unit queue) (Finish 0 Rejected)
     = runQueue [Call exampleDigest Throws]"
  "getOrCreateFetch (runQueue [Call exampleDigest Throws] :: unit queue) exampleDigest ReturnsPromise
     = (0, runQueue [Call exampleDigest Throws])"
  by (simp_all add: runQueue_def queueStep_def getOrCreateFetch_def emptyQueue_def Let_def)

lemma handleBlobRequest_locked:
  assumes "stream r = Some s" and "locked s"
    and "\<not> (\<not> truthy (req_headers req ''Range'') \<and> checkIfNoneMatch req (generateETag (sha256 parsed)))"
  shows "handleBlobRequest mime req parsed None r = Inl (TypeError ''ReadableStream is locked'')"
proof -
  have c: "(\<not> truthy (req_headers req ''Range'') \<and> checkIfNoneMatch req (generateETag (sha256 parsed))) = False"
    using assms(3) by simp
  show ?thesis
    using assms(1,2) by (simp add: handleBlobRequest_def tee_def Let_def c)
qed

lemma handleBlobRequest_locks:
  assumes "stream r = Some s" and "\<not> locked s"
    and "\<not> (\<not> truthy (req_headers req ''Range'') \<and> checkIfNoneMatch req (generateETag (sha256 parsed)))"
  shows "\<exists>resp. handleBlobRequest mime req parsed None r = Inr (resp, r\<lparr>stream := Some (s\<lparr>locked := True\<rparr>)\<rparr>)"
proof -
  have c: "(\<not> truthy (req_headers req ''Range'') \<and> checkIfNoneMatch req (generateETag (sha256 parsed))) = False"
    using assms(3) by simp
  show ?thesis
    using assms(1,2) by (simp add: handleBlobRequest_def tee_def Let_def c split: option.splits prod.splits)
qed

text \<open>
  Claim C9 fails on the code in its last part. Two callers get the promise of one fetch;
  when the fetch has finished, the entry is removed and the promise keeps the result, so
  both hold the same \<^verbatim>\<open>StreamResult\<close>. Whatever the two requests are, as long as neither is
  answered with 304: the first holder that reads calls \<^verbatim>\<open>tee()\<close> on the stream of the
  result, which locks that stream, and the other holder's \<^verbatim>\<open>tee()\<close> on the same stream
  throws. Only one of the callers that obtained the result can read from its stream.
\<close>

theorem C9_second_holder_cannot_read:
  assumes "stream r = Some s" and "\<not> locked s"
    and "\<not> (\<not> truthy (req_headers req1 ''Range'') \<and> checkIfNoneMatch req1 (generateETag (sha256 parsed)))"
    and "\<not> (\<not> truthy (req_headers req2 ''Range'') \<and> checkIfNoneMatch req2 (generateETag (sha256 parsed)))"
  shows "fst (getOrCreateFetch (emptyQueue :: StreamResult queue) (sha256 parsed) ReturnsPromise) = 0
       \<and> fst (getOrCreateFetch (runQueue [Call (sha256 parsed) ReturnsPromise] :: StreamResult queue)
                (sha256 parsed) ReturnsPromise) = 0
       \<and> inFlightFetches
            (runQueue [Call (sha256 parsed) ReturnsPromise, Call (sha256 parsed) ReturnsPromise,
                       Finish 0 (Fulfilled r)]) (sha256 parsed) = None
       \<and> promises
            (runQueue [Call (sha256 parsed) ReturnsPromise, Call (sha256 parsed) ReturnsPromise,
                       Finish 0 (Fulfilled r)]) ! 0 = Fulfilled r
       \<and> (\<exists>resp. handleBlobRequest mime req1 parsed None r
                    = Inr (resp, r\<lparr>stream := Some (s\<lparr>locked := True\<rparr>)\<rparr>))
       \<and> handleBlobRequest mime req2 parsed None (r\<lparr>stream := Some (s\<lparr>locked := True\<rparr>)\<rparr>)
           = Inl (TypeError ''ReadableStream is locked'')"
proof -
  have q: "fst (getOrCreateFetch (emptyQueue :: StreamResult queue) (sha256 parsed) ReturnsPromise) = 0
       \<and> fst (getOrCreateFetch (runQueue [Call (sha256 parsed) ReturnsPromise] :: StreamResult queue)
                (sha256 parsed) ReturnsPromise) = 0
       \<and> inFlightFetches
            (runQueue [Call (sha256 parsed) ReturnsPromise, Call (sha256 parsed) ReturnsPromise,
                       Finish 0 (Fulfilled r)]) (sha256 parsed) = None
       \<and> promises
            (runQueue [Call (sha256 parsed) ReturnsPromise, Call (sha256 parsed) ReturnsPromise,
                       Finish 0 (Fulfilled r)]) ! 0 = Fulfilled r"
    by (simp add: runQueue_def queueStep_def getOrCreateFetch_def emptyQueue_def fetchFinished_def Let_def)
  have first: "\<exists>resp. handleBlobRequest mime req1 parsed None r
                    = Inr (resp, r\<lparr>stream := Some (s\<lparr>locked := True\<rparr>)\<rparr>)"
    using handleBlobRequest_locks[OF assms(1,2,3)] .
  have second: "handleBlobRequest mime req2 parsed None (r\<lparr>stream := Some (s\<lparr>locked := True\<rparr>)\<rparr>)
           = Inl (TypeError ''ReadableStream is locked'')"
    by (rule handleBlobRequest_locked[where s="s\<lparr>locked := True\<rparr>"]) (use assms(4) in simp_all)
  show ?thesis using q first second by blast
qed

theorem C9_second_holder_cannot_read_witness:
  "inFlightFetches
     (runQueue [Call exampleDigest ReturnsPromise, Call exampleDigest ReturnsPromise,
                Finish 0 (Fulfilled sharedResult)]) exampleDigest = None
   \<and> handleBlobRequest (\<lambda>e. None) (exampleRequest [(''Range'', ''bytes=0-1'')]) exampleParsed None
        (sharedResult\<lparr>stream := Some \<lparr>locked = True, chunks = [[1, 2], [3]]\<rparr>\<rparr>)
       = Inl (TypeError ''ReadableStream is locked'')"
proof -
  have h1: "stream sharedResult = Some \<lparr>locked = False, chunks = [[1, 2], [3]]\<rparr>"
    by (simp add: sharedResult_def)
  have h2: "\<not> locked \<lparr>locked = False, chunks = [[1, 2], [3]]\<rparr>" by simp
  have h3: "\<not> (\<not> truthy (req_headers (exampleRequest []) ''Range'')
               \<and> checkIfNoneMatch (exampleRequest []) (generateETag (sha256 exampleParsed)))"
    by (simp add: checkIfNoneMatch_def exampleRequest_def)
  have h4: "\<not> (\<not> truthy (req_headers (exampleRequest [(''Range'', ''bytes=0-1'')]) ''Range'')
               \<and> checkIfNoneMatch (exampleRequest [(''Range'', ''bytes=0-1'')])
                    (generateETag (sha256 exampleParsed)))"
    by (simp add: exampleRequest_def truthy_def)
  show ?thesis
    using C9_second_holder_cannot_read[OF h1 h2 h3 h4, of "\<lambda>e. None"]
    by (simp add: exampleParsed_def)
qed

text \<open>
  Claim C2 fails on the code. Two clients ask for the same digest while nothing is cached.
  The queue starts one fetch and gives both the same promise, and when the fetch has found
  the blob both hold the same \<^verbatim>\<open>StreamResult\<close>. Each handler then calls \<^verbatim>\<open>tee()\<close> on the
  stream of that result. The call of the first client locks the stream and the response
  streams the bytes; the call of the second client finds the stream locked and throws, so
  the second client gets no bytes.
\<close>

theorem C2_second_client_cannot_attach:
  "fetchCalls (runQueue [Call exampleDigest ReturnsPromise, Call exampleDigest ReturnsPromise] :: StreamResult queue)
     = [(exampleDigest, 0)]
   \<and> fst (getOrCreateFetch (runQueue [Call exampleDigest ReturnsPromise] :: StreamResult queue) exampleDigest
            ReturnsPromise) = 0
   \<and> promises (queueStep (runQueue [Call exampleDigest ReturnsPromise, Call exampleDigest ReturnsPromise]) (Finish 0 (Fulfilled sharedResult)))
       ! 0 = Fulfilled sharedResult
   \<and> handleBlobRequest (\<lambda>e. None) (exampleRequest []) exampleParsed None sharedResult
       = Inr (\<lparr>status = 200,
               headers = [(''Content-Type'', ''application/octet-stream''), (''Content-Length'', ''3''),
                          (''Accept-Ranges'', ''bytes''), (''ETag'', generateETag exampleDigest),
                          (''Cache-Control'', ''public, max-age=31536000, immutable''),
                          (''Access-Control-Allow-Origin'', ''*'')],
               body = Stream [[1, 2], [3]]\<rparr>,
              sharedResult\<lparr>stream := Some \<lparr>locked = True, chunks = [[1, 2], [3]]\<rparr>\<rparr>)
   \<and> handleBlobRequest (\<lambda>e. None) (exampleRequest []) exampleParsed None
        (sharedResult\<lparr>stream := Some \<lparr>locked = True, chunks = [[1, 2], [3]]\<rparr>\<rparr>)
       = Inl (TypeError ''ReadableStream is locked'')"
proof -
  have q2: "(runQueue [Call exampleDigest ReturnsPromise, Call exampleDigest ReturnsPromise] :: StreamResult queue)
            = \<lparr>inFlightFetches = [exampleDigest \<mapsto> 0], promises = [Pending],
               fetchCalls = [(exampleDigest, 0)]\<rparr>"
    by (simp add: runQueue_def queueStep_def getOrCreateFetch_def emptyQueue_def Let_def)
  have q1: "(runQueue [Call exampleDigest ReturnsPromise] :: StreamResult queue)
            = \<lparr>inFlightFetches = [exampleDigest \<mapsto> 0], promises = [Pending],
               fetchCalls = [(exampleDigest, 0)]\<rparr>"
    by (simp add: runQueue_def queueStep_def getOrCreateFetch_def emptyQueue_def Let_def)
  have nim: "\<not> checkIfNoneMatch (exampleRequest []) (generateETag exampleDigest)"
    by (simp add: checkIfNoneMatch_def exampleRequest_def)
  have first: "handleBlobRequest (\<lambda>e. None) (exampleRequest []) exampleParsed None sharedResult
       = Inr (\<lparr>status = 200,
               headers = [(''Content-Type'', ''application/octet-stream''), (''Content-Length'', ''3''),
                          (''Accept-Ranges'', ''bytes''), (''ETag'', generateETag exampleDigest),
                          (''Cache-Control'', ''public, max-age=31536000, immutable''),
                          (''Access-Control-Allow-Origin'', ''*'')],
               body = Stream [[1, 2], [3]]\<rparr>,
              sharedResult\<lparr>stream := Some \<lparr>locked = True, chunks = [[1, 2], [3]]\<rparr>\<rparr>)"
    using nim
    by (simp add: handleBlobRequest_def exampleRequest_def exampleParsed_def sharedResult_def tee_def
        truthy_def Let_def addCorsHeaders_def getCacheControlHeaders_def toString_small)
  have second: "handleBlobRequest (\<lambda>e. None) (exampleRequest []) exampleParsed None
        (sharedResult\<lparr>stream := Some \<lparr>locked = True, chunks = [[1, 2], [3]]\<rparr>\<rparr>)
       = Inl (TypeError ''ReadableStream is locked'')"
    using nim
    by (simp add: handleBlobRequest_def exampleRequest_def exampleParsed_def sharedResult_def tee_def
        truthy_def Let_def)
  show ?thesis
    unfolding q1 q2 using first second
    by (simp add: getOrCreateFetch_def queueStep_def fetchFinished_def)
qed

subsection \<open>Pruning\<close>

text \<open>
  Below \<open>2 ^ 49\<close> bytes (512 TiB) the double product has the integer part of the exact
  nine tenths: the product is rounded by at most \<open>2 ^ -5\<close>, and the double \<^verbatim>\<open>0.9\<close> exceeds
  nine tenths by \<open>2 / (10 * 2 ^ 53)\<close>.
\<close>

declare normShift.simps [simp del]

lemma normShift_le: "n < 2 ^ (53 + k) \<Longrightarrow> normShift n \<le> k"
proof (induction k arbitrary: n)
  case 0
  then show ?case by (simp add: normShift.simps[of n])
next
  case (Suc k)
  show ?case
  proof (cases "n < 2 ^ 53")
    case True
    then show ?thesis by (simp add: normShift.simps[of n])
  next
    case False
    have "(2::nat) ^ (53 + Suc k) = 2 * 2 ^ (53 + k)" by (simp only: add_Suc_right power_Suc)
    then have "n < 2 * 2 ^ (53 + k)" using Suc.prems by (simp only:)
    then have "n div 2 < 2 ^ (53 + k)" by linarith
    then have "normShift (n div 2) \<le> k" by (rule Suc.IH)
    then show ?thesis using False by (simp add: normShift.simps[of n])
  qed
qed

lemma roundToEven_lower: "(n div 2 ^ s) * 2 ^ s \<le> roundToEven n s"
  by (simp add: roundToEven_def Let_def)

lemma roundToEven_upper: "2 * roundToEven n s \<le> 2 * n + 2 ^ s"
proof -
  have d: "n = (n div 2 ^ s) * 2 ^ s + n mod 2 ^ s" by (rule div_mult_mod_eq[symmetric])
  show ?thesis
  proof (cases "2 * (n mod 2 ^ s) < 2 ^ s \<or> (2 * (n mod 2 ^ s) = 2 ^ s \<and> even (n div 2 ^ s))")
    case True
    then have "roundToEven n s = (n div 2 ^ s) * 2 ^ s" by (simp add: roundToEven_def Let_def)
    then have "roundToEven n s \<le> n" using d by linarith
    then show ?thesis by simp
  next
    case False
    then have r: "roundToEven n s = (n div 2 ^ s + 1) * 2 ^ s" by (simp add: roundToEven_def Let_def)
    have h: "2 ^ s \<le> 2 * (n mod 2 ^ s)" using False by linarith
    have "2 * roundToEven n s = 2 * ((n div 2 ^ s) * 2 ^ s) + 2 * 2 ^ s" using r by (simp add: algebra_simps)
    also have "\<dots> \<le> 2 * ((n div 2 ^ s) * 2 ^ s) + 2 * (n mod 2 ^ s) + 2 ^ s" using h by simp
    also have "\<dots> = 2 * n + 2 ^ s" using d by linarith
    finally show ?thesis .
  qed
qed

lemma floorTimes09_exact:
  assumes "m < 2 ^ 49"
  shows "floorTimes09 m = (9 * m) div 10"
proof -
  define n where "n = m * 8106479329266893"
  define s where "s = normShift n"
  define R where "R = roundToEven n s"
  define K where "K = (9 * m) div 10"
  have m: "m < 562949953421312" using assms by simp
  have ten: "10 * n = 9 * m * 9007199254740992 + 2 * m" by (simp add: n_def)
  have nlt: "n < 2 ^ (53 + 49)" using m by (simp add: n_def)
  have s49: "s \<le> 49" unfolding s_def using normShift_le[OF nlt] .
  have p: "(2::nat) ^ s \<le> 2 ^ 49" by (rule power_increasing) (use s49 in simp_all)
  have K10: "10 * K \<le> 9 * m" "9 * m < 10 * K + 10" unfolding K_def by presburger+
  have low: "K * 2 ^ 53 \<le> n"
  proof -
    have "10 * (K * 9007199254740992) \<le> 10 * n" using K10(1) ten by simp
    then show ?thesis by simp
  qed
  have dv: "(2::nat) ^ s dvd K * 2 ^ 53"
  proof -
    have "(2::nat) ^ s dvd 2 ^ 53" by (rule le_imp_power_dvd) (use s49 in simp)
    then show ?thesis by (rule dvd_mult)
  qed
  have "K * 2 ^ 53 = ((K * 2 ^ 53) div 2 ^ s) * 2 ^ s" using dv by simp
  also have "\<dots> \<le> (n div 2 ^ s) * 2 ^ s" using low by (simp add: div_le_mono)
  also have "\<dots> \<le> R" unfolding R_def by (rule roundToEven_lower)
  finally have lower: "K * 2 ^ 53 \<le> R" .
  have up0: "2 * R \<le> 2 * n + 2 ^ 49"
    using roundToEven_upper[of n s] p unfolding R_def by linarith
  have "20 * R \<le> 20 * n + 10 * 2 ^ 49" using up0 by simp
  also have "\<dots> = 18 * m * 9007199254740992 + 4 * m + 10 * 2 ^ 49" using ten by simp
  also have "\<dots> < (20 * K + 20) * 9007199254740992" using K10(2) m by simp
  finally have "20 * R < 20 * ((K + 1) * 2 ^ 53)" by simp
  then have upper: "R < (K + 1) * 2 ^ 53" by simp
  have e: "floorTimes09 m = R div 2 ^ 53"
    by (simp only: floorTimes09_def times09_def Let_def R_def s_def n_def)
  have "R div 2 ^ 53 = K"
    by (rule div_nat_eqI) (use lower upper in \<open>simp_all add: mult.commute\<close>)
  then show ?thesis using e by (simp only: K_def)
qed


text \<open>
  From \<open>2 ^ 49\<close> bytes on the rounded product can exceed nine tenths of the ceiling: for
  2277 TB its integer part is one more than that of the exact value.
\<close>

lemma floorTimes09_rounds_up:
  "floorTimes09 2503587976445952 = 2253229178801357"
  "(9 * 2503587976445952) div 10 = (2253229178801356 :: nat)"
proof -
  have s: "normShift (2503587976445952 * 8106479329266893) = 52"
    by (simp add: normShift.simps)
  have r: "roundToEven (2503587976445952 * 8106479329266893) 52 = 20295284180060240180246053126144"
    by (simp add: roundToEven_def Let_def)
  show "floorTimes09 2503587976445952 = 2253229178801357"
    unfolding floorTimes09_def times09_def Let_def s r by simp
  show "(9 * 2503587976445952) div 10 = (2253229178801356 :: nat)" by simp
qed

lemma pruneLoop_evicted:
  assumes "distinct (map sha256_col rows)"
    and "\<forall>r\<in>set rows. f (sha256_col r) = files st0 (sha256_col r)"
  shows "pruneLoop df toFree rows \<lparr>files = f, cache_metadata = m\<rparr> freed cnt =
     (\<lparr>files = (\<lambda>d. if d \<in> sha256_col ` set (filter (deletable df st0) (evictedRows df st0 toFree rows freed))
                      then None else f d),
       cache_metadata = filter (\<lambda>r. sha256_col r \<notin> sha256_col ` set (evictedRows df st0 toFree rows freed)) m\<rparr>,
      freed + freedBy df st0 (evictedRows df st0 toFree rows freed),
      cnt + length (filter (deletable df st0) (evictedRows df st0 toFree rows freed)))"
  using assms
proof (induction rows arbitrary: f m freed cnt)
  case Nil
  then show ?case by (simp add: freedBy_def)
next
  case (Cons r rows)
  show ?case
  proof (cases "freed \<ge> toFree")
    case True
    then show ?thesis by (simp add: freedBy_def)
  next
    case False
    have d: "distinct (map sha256_col rows)" using Cons.prems(1) by simp
    have notin: "sha256_col r \<notin> sha256_col ` set rows" using Cons.prems(1) by simp
    have fr: "f (sha256_col r) = files st0 (sha256_col r)" using Cons.prems(2) by simp
    show ?thesis
    proof (cases "deletable df st0 r")
      case True
      let ?f1 = "f(sha256_col r := None)"
      let ?m1 = "db_delete m (sha256_col r)"
      have del: "file_delete df \<lparr>files = f, cache_metadata = m\<rparr> (sha256_col r)
                 = Some \<lparr>files = ?f1, cache_metadata = m\<rparr>"
        using True fr by (simp add: file_delete_def deletable_def)
      have pre: "\<forall>r'\<in>set rows. ?f1 (sha256_col r') = files st0 (sha256_col r')"
      proof
        fix r' assume m: "r' \<in> set rows"
        then have "sha256_col r' \<in> sha256_col ` set rows" by (rule imageI)
        then have "sha256_col r' \<noteq> sha256_col r" using notin by metis
        then show "?f1 (sha256_col r') = files st0 (sha256_col r')" using Cons.prems(2) m by simp
      qed
      have step: "pruneLoop df toFree (r # rows) \<lparr>files = f, cache_metadata = m\<rparr> freed cnt
                  = pruneLoop df toFree rows \<lparr>files = ?f1, cache_metadata = ?m1\<rparr> (freed + size_col r) (cnt + 1)"
        using False del by simp
      have ev: "evictedRows df st0 toFree (r # rows) freed
                = r # evictedRows df st0 toFree rows (freed + size_col r)"
        using False True by simp
      show ?thesis
        unfolding step ev Cons.IH[OF d pre]
        using True by (auto simp: freedBy_def db_delete_def fun_eq_iff intro: filter_cong)
    next
      case False2: False
      let ?m1 = "db_delete m (sha256_col r)"
      have del: "file_delete df \<lparr>files = f, cache_metadata = m\<rparr> (sha256_col r) = None"
        using False2 fr by (auto simp: file_delete_def deletable_def)
      have pre: "\<forall>r'\<in>set rows. f (sha256_col r') = files st0 (sha256_col r')"
        using Cons.prems(2) by auto
      have step: "pruneLoop df toFree (r # rows) \<lparr>files = f, cache_metadata = m\<rparr> freed cnt
                  = pruneLoop df toFree rows \<lparr>files = f, cache_metadata = ?m1\<rparr> freed cnt"
        using False del by simp
      have ev: "evictedRows df st0 toFree (r # rows) freed
                = r # evictedRows df st0 toFree rows freed"
        using False False2 by simp
      show ?thesis
        unfolding step ev Cons.IH[OF d pre]
        using False2 by (auto simp: freedBy_def db_delete_def fun_eq_iff intro: filter_cong)
    qed
  qed
qed

lemma evictedRows_prefix: "prefix (evictedRows df st toFree rows freed) rows"
  by (induction rows arbitrary: freed) auto

lemma evictedRows_stop:
  "freed + freedBy df st (evictedRows df st toFree rows freed) \<ge> toFree
   \<or> evictedRows df st toFree rows freed = rows"
proof (induction rows arbitrary: freed)
  case Nil
  then show ?case by simp
next
  case (Cons r rows)
  show ?case
  proof (cases "freed \<ge> toFree")
    case True
    then show ?thesis by (simp add: freedBy_def)
  next
    case False
    then show ?thesis
      using Cons[of "if deletable df st r then freed + size_col r else freed"]
      by (auto simp: freedBy_def)
  qed
qed

lemma evictedRows_needed:
  "k < length (evictedRows df st toFree rows freed) \<Longrightarrow>
   freed + freedBy df st (take k (evictedRows df st toFree rows freed)) < toFree"
proof (induction rows arbitrary: freed k)
  case Nil
  then show ?case by simp
next
  case (Cons r rows)
  show ?case
  proof (cases "freed \<ge> toFree")
    case True
    then show ?thesis using Cons.prems by simp
  next
    case False
    show ?thesis
    proof (cases k)
      case 0
      then show ?thesis using False by (simp add: freedBy_def)
    next
      case (Suc j)
      then have "j < length (evictedRows df st toFree rows (if deletable df st r then freed + size_col r else freed))"
        using Cons.prems False by simp
      from Cons.IH[OF this] show ?thesis using False Suc by (auto simp: freedBy_def)
    qed
  qed
qed


lemma sum_list_insort_key:
  fixes g :: "'a \<Rightarrow> nat"
  shows "sum_list (map g (insort_key k x xs)) = g x + sum_list (map g xs)"
  by (induction xs) auto

lemma sum_list_sort_key:
  fixes g :: "'a \<Rightarrow> nat"
  shows "sum_list (map g (sort_key k xs)) = sum_list (map g xs)"
  by (induction xs) (auto simp: sum_list_insort_key)

lemma distinct_map_sort_key:
  "distinct (map g (sort_key k xs)) = distinct (map g xs)"
  by (simp add: distinct_map)

lemma filter_evicted_rows:
  assumes "distinct (map sha256_col (ev @ rest))"
  shows "filter (\<lambda>r. sha256_col r \<notin> sha256_col ` set ev) (ev @ rest) = rest"
proof -
  have a: "filter (\<lambda>r. sha256_col r \<notin> sha256_col ` set ev) ev = []"
    by (simp add: filter_empty_conv)
  have "\<And>r. r \<in> set rest \<Longrightarrow> sha256_col r \<notin> sha256_col ` set ev"
    using assms by auto
  then have b: "filter (\<lambda>r. sha256_col r \<notin> sha256_col ` set ev) rest = rest"
    by (simp add: filter_id_conv)
  show ?thesis using a b by simp
qed

lemma remaining_size:
  assumes "distinct (map sha256_col tbl)" and "prefix ev (sort_key last_accessed tbl)"
  shows "sum_list (map size_col (filter (\<lambda>r. sha256_col r \<notin> sha256_col ` set ev) tbl))
           + sum_list (map size_col ev) = sum_list (map size_col tbl)
       \<and> (ev = sort_key last_accessed tbl \<longrightarrow>
            filter (\<lambda>r. sha256_col r \<notin> sha256_col ` set ev) tbl = [])"
proof -
  let ?P = "\<lambda>r. sha256_col r \<notin> sha256_col ` set ev"
  obtain rest where rows: "sort_key last_accessed tbl = ev @ rest"
    using assms(2) by (auto simp: prefix_def)
  have d: "distinct (map sha256_col (ev @ rest))"
    using assms(1) rows distinct_map_sort_key[of sha256_col last_accessed tbl] by simp
  have "sum_list (map size_col (filter ?P tbl))
        = sum_list (map size_col (sort_key last_accessed (filter ?P tbl)))"
    by (simp add: sum_list_sort_key)
  also have "\<dots> = sum_list (map size_col (filter ?P (sort_key last_accessed tbl)))"
    by (simp add: filter_sort)
  also have "\<dots> = sum_list (map size_col rest)"
    unfolding rows filter_evicted_rows[OF d] by simp
  finally have s1: "sum_list (map size_col (filter ?P tbl)) = sum_list (map size_col rest)" .
  have "sum_list (map size_col tbl) = sum_list (map size_col (sort_key last_accessed tbl))"
    by (simp add: sum_list_sort_key)
  then have s2: "sum_list (map size_col tbl) = sum_list (map size_col ev) + sum_list (map size_col rest)"
    unfolding rows by simp
  have e: "ev = sort_key last_accessed tbl \<longrightarrow> filter ?P tbl = []"
  proof
    assume "ev = sort_key last_accessed tbl"
    then have "set ev = set tbl" by simp
    then show "filter ?P tbl = []" by (auto simp: filter_empty_conv)
  qed
  show ?thesis using s1 s2 e by simp
qed

lemma filter_by_digest:
  assumes "distinct (map sha256_col tbl)" and "set ev \<subseteq> set tbl"
  shows "filter (\<lambda>r. sha256_col r \<notin> sha256_col ` set ev) tbl = filter (\<lambda>r. r \<notin> set ev) tbl"
proof (rule filter_cong[OF refl])
  fix r assume m: "r \<in> set tbl"
  have inj: "inj_on sha256_col (set tbl)" using assms(1) by (simp add: distinct_map)
  show "(sha256_col r \<notin> sha256_col ` set ev) = (r \<notin> set ev)"
    using inj m assms(2) by (auto simp: inj_on_def)
qed

text \<open>
  Claim C5, amended: no tie-break by digest. A size ceiling below \<open>2 ^ 49\<close> bytes is
  configured and the total size in the metadata table exceeds it; the digests of the
  table are distinct, as its primary key requires. \<open>rows\<close> is the table in the order of the query,
  ascending in \<^verbatim>\<open>last_accessed\<close>; \<open>sizeToFree\<close> is the current size minus the target, 90% of
  the ceiling rounded down; \<open>evicted\<close> are the rows that the eviction in the words of the
  specification evicts from \<open>rows\<close>. Then \<open>evicted\<close> is an initial part of \<open>rows\<close>; it ends
  when the freed bytes have reached \<open>sizeToFree\<close> or no row is left, and no row is evicted
  after that point; \<^verbatim>\<open>pruneCache\<close> removes from the table exactly the evicted rows, also those
  whose file could not be deleted; it deletes the files that could be deleted and returns
  their number; and afterwards the total size is at most 90% of the ceiling.
\<close>

theorem C5_prune_evicts_least_recently_accessed:
  assumes ceiling: "MAX_CACHE_SIZE = Some maxSize"
    and small: "maxSize < 2 ^ 49"
    and over: "getCacheSize st > maxSize"
    and key: "distinct (map sha256_col (cache_metadata st))"
    and rows: "rows = db_order_by_last_accessed (cache_metadata st)"
    and toFree: "sizeToFree = getCacheSize st - (9 * maxSize) div 10"
    and ev: "evicted = evictedRows deleteFails st sizeToFree rows 0"
  shows "sorted (map last_accessed rows) \<and> set rows = set (cache_metadata st)
       \<and> length rows = length (cache_metadata st)
       \<and> prefix evicted rows
       \<and> (freedBy deleteFails st evicted \<ge> sizeToFree \<or> evicted = rows)
       \<and> list_all (\<lambda>k. freedBy deleteFails st (take k evicted) < sizeToFree) [0..<length evicted]
       \<and> cache_metadata (snd (pruneCache MAX_CACHE_SIZE deleteFails st))
            = filter (\<lambda>r. r \<notin> set evicted) (cache_metadata st)
       \<and> files (snd (pruneCache MAX_CACHE_SIZE deleteFails st))
            = (\<lambda>d. if d \<in> sha256_col ` set (filter (deletable deleteFails st) evicted) then None
                   else files st d)
       \<and> fst (pruneCache MAX_CACHE_SIZE deleteFails st) = length (filter (deletable deleteFails st) evicted)
       \<and> 10 * getCacheSize (snd (pruneCache MAX_CACHE_SIZE deleteFails st)) \<le> 9 * maxSize"
proof -
  let ?tbl = "cache_metadata st"
  let ?target = "(9 * maxSize) div 10"
  have st: "st = \<lparr>files = files st, cache_metadata = ?tbl\<rparr>" by simp
  have pos: "\<not> sizeToFree \<le> 0" using over toFree by simp
  have drows: "distinct (map sha256_col rows)"
    using key rows by (simp add: db_order_by_last_accessed_def distinct_map_sort_key)
  have loop: "pruneLoop deleteFails sizeToFree rows st 0 0 =
     (\<lparr>files = (\<lambda>d. if d \<in> sha256_col ` set (filter (deletable deleteFails st) evicted) then None
                      else files st d),
       cache_metadata = filter (\<lambda>r. sha256_col r \<notin> sha256_col ` set evicted) ?tbl\<rparr>,
      freedBy deleteFails st evicted, length (filter (deletable deleteFails st) evicted))"
  proof -
    have "pruneLoop deleteFails sizeToFree rows st 0 0
          = pruneLoop deleteFails sizeToFree rows \<lparr>files = files st, cache_metadata = ?tbl\<rparr> 0 0"
      by (rule arg_cong[where f="\<lambda>s. pruneLoop deleteFails sizeToFree rows s 0 0"]) simp
    then show ?thesis
      using pruneLoop_evicted[OF drows, of "files st" st deleteFails sizeToFree ?tbl 0 0] ev
      by simp
  qed
  have prune: "pruneCache MAX_CACHE_SIZE deleteFails st =
     (length (filter (deletable deleteFails st) evicted),
      \<lparr>files = (\<lambda>d. if d \<in> sha256_col ` set (filter (deletable deleteFails st) evicted) then None
                      else files st d),
       cache_metadata = filter (\<lambda>r. sha256_col r \<notin> sha256_col ` set evicted) ?tbl\<rparr>)"
    using ceiling over pos toFree rows loop
    by (simp add: pruneCache_def Let_def floorTimes09_exact[OF small])
  have pre: "prefix evicted rows" unfolding ev by (rule evictedRows_prefix)
  have sub: "set evicted \<subseteq> set ?tbl"
    using pre rows by (auto simp: prefix_def db_order_by_last_accessed_def dest: arg_cong[where f=set])
  have stop: "freedBy deleteFails st evicted \<ge> sizeToFree \<or> evicted = rows"
    using evictedRows_stop[of sizeToFree 0 deleteFails st rows] ev by simp
  have needed: "list_all (\<lambda>k. freedBy deleteFails st (take k evicted) < sizeToFree) [0..<length evicted]"
    unfolding list_all_iff using evictedRows_needed[of _ deleteFails st sizeToFree rows 0] ev by auto
  have rem: "sum_list (map size_col (filter (\<lambda>r. sha256_col r \<notin> sha256_col ` set evicted) ?tbl))
               + sum_list (map size_col evicted) = getCacheSize st
             \<and> (evicted = rows \<longrightarrow> filter (\<lambda>r. sha256_col r \<notin> sha256_col ` set evicted) ?tbl = [])"
    using remaining_size[OF key, of evicted] pre rows
    by (simp add: db_order_by_last_accessed_def getCacheSize_def)
  have le: "freedBy deleteFails st evicted \<le> sum_list (map size_col evicted)"
    by (simp add: freedBy_def sum_list_filter_le_nat)
  have bound: "getCacheSize (snd (pruneCache MAX_CACHE_SIZE deleteFails st)) \<le> ?target"
  proof (cases "evicted = rows")
    case True
    then show ?thesis using rem by (simp add: prune getCacheSize_def)
  next
    case False
    then have f: "freedBy deleteFails st evicted \<ge> sizeToFree" using stop by simp
    have s: "sum_list (map size_col (filter (\<lambda>r. sha256_col r \<notin> sha256_col ` set evicted) ?tbl))
               + sum_list (map size_col evicted) = getCacheSize st"
      using rem by simp
    have "sum_list (map size_col (filter (\<lambda>r. sha256_col r \<notin> sha256_col ` set evicted) ?tbl)) \<le> ?target"
      using f s le toFree by linarith
    then show ?thesis by (simp add: prune getCacheSize_def)
  qed
  have a1: "sorted (map last_accessed rows)" using rows by (simp add: db_order_by_last_accessed_def)
  have a2: "set rows = set ?tbl" using rows by (simp add: db_order_by_last_accessed_def)
  have a3: "length rows = length ?tbl" using rows by (simp add: db_order_by_last_accessed_def)
  have a7: "cache_metadata (snd (pruneCache MAX_CACHE_SIZE deleteFails st))
            = filter (\<lambda>r. r \<notin> set evicted) ?tbl"
    using filter_by_digest[OF key sub] by (simp add: prune)
  have a8: "files (snd (pruneCache MAX_CACHE_SIZE deleteFails st))
            = (\<lambda>d. if d \<in> sha256_col ` set (filter (deletable deleteFails st) evicted) then None
                   else files st d)"
    by (simp add: prune)
  have a9: "fst (pruneCache MAX_CACHE_SIZE deleteFails st) = length (filter (deletable deleteFails st) evicted)"
    by (simp add: prune)
  have a10: "10 * getCacheSize (snd (pruneCache MAX_CACHE_SIZE deleteFails st)) \<le> 9 * maxSize"
    using bound by simp
  show ?thesis
    apply (intro conjI)
    apply (rule a1) apply (rule a2) apply (rule a3) apply (rule pre) apply (rule stop)
    apply (rule needed) apply (rule a7) apply (rule a8) apply (rule a9) apply (rule a10)
    done
qed


lemma threeBlobs_eval:
  "getCacheSize threeBlobs = 1200"
  "distinct (map sha256_col (cache_metadata threeBlobs))"
  "db_order_by_last_accessed (cache_metadata threeBlobs)
     = [blobRow exampleDigest 1000, blobRow digestB 2000, blobRow digestC 3000]"
  "evictedRows (\<lambda>d. False) threeBlobs 279
     [blobRow exampleDigest 1000, blobRow digestB 2000, blobRow digestC 3000] 0
     = [blobRow exampleDigest 1000]"
  "filter (\<lambda>r. r \<notin> set [blobRow exampleDigest 1000]) (cache_metadata threeBlobs)
     = [blobRow digestB 2000, blobRow digestC 3000]"
  by code_simp+

theorem C5_prune_evicts_least_recently_accessed_witness:
  "cache_metadata (snd (pruneCache (Some 1024) (\<lambda>d. False) threeBlobs))
     = [blobRow digestB 2000, blobRow digestC 3000]
   \<and> 10 * getCacheSize (snd (pruneCache (Some 1024) (\<lambda>d. False) threeBlobs)) \<le> 9 * 1024"
proof -
  have h1: "Some (1024 :: nat) = Some 1024" by simp
  have h0: "(1024 :: nat) < 2 ^ 49" by simp
  have h2: "getCacheSize threeBlobs > 1024" by (simp add: threeBlobs_eval)
  have h4: "[blobRow exampleDigest 1000, blobRow digestB 2000, blobRow digestC 3000]
            = db_order_by_last_accessed (cache_metadata threeBlobs)"
    by (simp add: threeBlobs_eval)
  have h5: "(279 :: nat) = getCacheSize threeBlobs - (9 * 1024) div 10" by (simp add: threeBlobs_eval)
  have h6: "[blobRow exampleDigest 1000]
            = evictedRows (\<lambda>d. False) threeBlobs 279
                [blobRow exampleDigest 1000, blobRow digestB 2000, blobRow digestC 3000] 0"
    by (simp only: threeBlobs_eval)
  show ?thesis
    using C5_prune_evicts_least_recently_accessed[OF h1 h0 h2 threeBlobs_eval(2) h4 h5 h6]
    by (simp only: threeBlobs_eval)
qed

text \<open>
  The rows of \<open>tieState\<close> have the same \<^verbatim>\<open>last_accessed\<close>, and the ceiling of 10 bytes asks
  for one eviction. In the order of the specification the row of the smaller digest comes
  first and would be the one evicted; \<^verbatim>\<open>pruneCache\<close> evicts the row of the greater digest,
  which the query returns first, and keeps the other.
\<close>

theorem C5_tie_break_counterexample:
  "last_accessed rowA = last_accessed rowB \<and> sha256_col rowA < sha256_col rowB
   \<and> evictedRows (\<lambda>d. False) tieState 3 (lruDigestOrder (cache_metadata tieState)) 0 = [rowA]
   \<and> cache_metadata (snd (pruneCache (Some 10) (\<lambda>d. False) tieState)) = [rowA]
   \<and> files (snd (pruneCache (Some 10) (\<lambda>d. False) tieState)) (sha256_col rowB) = None"
proof -
  have t: "floorTimes09 10 = 9" by (simp add: floorTimes09_exact)
  have a: "last_accessed rowA = last_accessed rowB \<and> sha256_col rowA < sha256_col rowB
     \<and> evictedRows (\<lambda>d. False) tieState 3 (lruDigestOrder (cache_metadata tieState)) 0 = [rowA]"
    by code_simp
  have sz: "getCacheSize tieState = 12" by code_simp
  have p: "snd (pruneCache (Some 10) (\<lambda>d. False) tieState)
           = fst (pruneLoop (\<lambda>d. False) 3 (db_order_by_last_accessed (cache_metadata tieState))
                    tieState 0 0)"
    by (simp add: pruneCache_def Let_def t sz case_prod_beta)
  have l1: "cache_metadata (fst (pruneLoop (\<lambda>d. False) 3
              (db_order_by_last_accessed (cache_metadata tieState)) tieState 0 0)) = [rowA]"
    by code_simp
  have l2: "files (fst (pruneLoop (\<lambda>d. False) 3
              (db_order_by_last_accessed (cache_metadata tieState)) tieState 0 0)) (sha256_col rowB) = None"
    by code_simp
  show ?thesis using a l1 l2 by (simp only: p)
qed

end
